theory Spec2Isabelle
  imports Complex_Main
begin

section \<open>Absolute-episode mapping\<close>

text \<open>
  \<^verbatim>\<open>convertToAbsoluteEpisode(imdbId, season, episode)\<close> of the worker looks the series up in
  the table \<^verbatim>\<open>EPISODE_SEASON_MAPPINGS\<close>, an object from series ids to
  \<^verbatim>\<open>{ seasons: [{season, start, end}, ...], totalSeasons }\<close>.  The table is data; the
  function is modelled over an arbitrary table, a map from ids to the list of season rows.
  The ids that reach the function are ids of the catalog or of the metadata services (the
  stream handler returns before the call when it has found no anime for the id), so the
  lookup is a lookup among the table's own keys.  Seasons and episodes are the integers
  that \<^verbatim>\<open>parseInt\<close> has read from the request.
\<close>

record seasonRange =
  season_no :: int
  range_start :: int
  range_end :: int

type_synonym seasonTable = "string \<rightharpoonup> seasonRange list"

definition convertToAbsoluteEpisode :: "seasonTable \<Rightarrow> string \<Rightarrow> int \<Rightarrow> int \<Rightarrow> int" where
  "convertToAbsoluteEpisode tbl imdbId season episode =
     (case tbl imdbId of
        None \<Rightarrow> episode
      | Some seasons \<Rightarrow>
          (case find (\<lambda>s. season_no s = season) seasons of
             None \<Rightarrow> episode
           | Some seasonData \<Rightarrow>
               (let absoluteEpisode = range_start seasonData + (episode - 1)
                in if absoluteEpisode > range_end seasonData then range_end seasonData
                   else absoluteEpisode)))"

definition seriesX_table :: seasonTable where
  "seriesX_table =
     [''seriesX'' \<mapsto> [\<lparr>season_no = 21, range_start = 892, range_end = 1085\<rparr>]]"


section \<open>Strings and regular expressions of the runtime\<close>

text \<open>
  A JavaScript string is a sequence of UTF-16 code units; a code unit is modelled by its
  number.  \<open>js\<close> turns an ASCII literal into such a string.

  The regular expressions of the code are values of the datatype \<open>regex\<close>.  Every
  quantifier of the code applies to a character class (\<open>Rep\<close>, greedy, with its bounds) or
  is a \<^verbatim>\<open>?\<close> on a group (\<open>Opt\<close>, greedy).  The matcher \<open>ms\<close> returns the end states of
  all the ways a pattern matches at a position, in the order in which a backtracking
  matcher tries them: the first one is the match the runtime reports.  A state is the code
  unit before the position (for \<^verbatim>\<open>\b\<close>), the rest of the input and the groups captured so
  far.  The flag \<open>ic\<close> is the flag \<^verbatim>\<open>i\<close>: a code unit then matches a literal or a range when
  their upper-case forms agree; the patterns of the code that carry the flag hold ASCII
  letters and ideographs only, for which upper-casing is the ASCII one.
\<close>

type_synonym cu = int
type_synonym jsstring = "cu list"

definition js :: "string \<Rightarrow> jsstring" where
  "js s = map of_char s"

definition isDigit :: "cu \<Rightarrow> bool" where
  "isDigit c \<longleftrightarrow> 48 \<le> c \<and> c \<le> 57"

definition isWordChar :: "cu \<Rightarrow> bool" where
  "isWordChar c \<longleftrightarrow> (97 \<le> c \<and> c \<le> 122) \<or> (65 \<le> c \<and> c \<le> 90) \<or> (48 \<le> c \<and> c \<le> 57) \<or> c = 95"

definition isSpace :: "cu \<Rightarrow> bool" where
  "isSpace c \<longleftrightarrow> (9 \<le> c \<and> c \<le> 13) \<or> c = 32 \<or> c = 160 \<or> c = 5760
     \<or> (8192 \<le> c \<and> c \<le> 8202) \<or> c = 8232 \<or> c = 8233 \<or> c = 8239 \<or> c = 8287
     \<or> c = 12288 \<or> c = 65279"

definition upperA :: "cu \<Rightarrow> cu" where
  "upperA c = (if 97 \<le> c \<and> c \<le> 122 then c - 32 else c)"

definition lowerA :: "cu \<Rightarrow> cu" where
  "lowerA c = (if 65 \<le> c \<and> c \<le> 90 then c + 32 else c)"

datatype citem = CLit cu | CRange cu cu | CDigit | CSpace | CWord
datatype cclass = CSet "citem list" | CNot "citem list"

fun item_match :: "bool \<Rightarrow> citem \<Rightarrow> cu \<Rightarrow> bool" where
  "item_match ic (CLit a) c = (if ic then upperA c = upperA a else c = a)"
| "item_match ic (CRange lo hi) c =
     ((lo \<le> c \<and> c \<le> hi)
      \<or> (ic \<and> ((lo \<le> upperA c \<and> upperA c \<le> hi) \<or> (lo \<le> lowerA c \<and> lowerA c \<le> hi))))"
| "item_match ic CDigit c = isDigit c"
| "item_match ic CSpace c = isSpace c"
| "item_match ic CWord c = isWordChar c"

fun class_match :: "bool \<Rightarrow> cclass \<Rightarrow> cu \<Rightarrow> bool" where
  "class_match ic (CSet its) c = list_ex (\<lambda>i. item_match ic i c) its"
| "class_match ic (CNot its) c = (\<not> list_ex (\<lambda>i. item_match ic i c) its)"

datatype regex =
    Eps
  | Chr cclass
  | Seq regex regex
  | Alt regex regex
  | Opt regex
  | Rep nat "nat option" cclass
  | Cap nat regex
  | WordB
  | Eol
  | NotAhead regex

type_synonym mstate = "cu option \<times> jsstring \<times> (nat \<times> jsstring) list"

fun dec :: "nat option \<Rightarrow> nat option" where
  "dec None = None"
| "dec (Some n) = Some (n - 1)"

fun reps :: "bool \<Rightarrow> cclass \<Rightarrow> nat \<Rightarrow> nat option \<Rightarrow> cu option \<Rightarrow> jsstring
             \<Rightarrow> (cu option \<times> jsstring) list" where
  "reps ic c lo hi p [] = (if lo = 0 then [(p, [])] else [])"
| "reps ic c lo hi p (x # xs) =
     (if class_match ic c x \<and> hi \<noteq> Some 0 then reps ic c (lo - 1) (dec hi) (Some x) xs else [])
     @ (if lo = 0 then [(p, x # xs)] else [])"

definition wordAt :: "cu option \<Rightarrow> bool" where
  "wordAt p = (case p of None \<Rightarrow> False | Some c \<Rightarrow> isWordChar c)"

fun ms :: "bool \<Rightarrow> regex \<Rightarrow> mstate \<Rightarrow> mstate list" where
  "ms ic Eps st = [st]"
| "ms ic (Chr c) (p, [], caps) = []"
| "ms ic (Chr c) (p, x # xs, caps) = (if class_match ic c x then [(Some x, xs, caps)] else [])"
| "ms ic (Seq a b) st = concat (map (ms ic b) (ms ic a st))"
| "ms ic (Alt a b) st = ms ic a st @ ms ic b st"
| "ms ic (Opt a) st = ms ic a st @ [st]"
| "ms ic (Rep lo hi c) (p, s, caps) = map (\<lambda>(p', s'). (p', s', caps)) (reps ic c lo hi p s)"
| "ms ic (Cap n a) (p, s, caps) =
     map (\<lambda>(p', s', caps'). (p', s', caps' @ [(n, take (length s - length s') s)])) (ms ic a (p, s, caps))"
| "ms ic WordB (p, s, caps) =
     (if wordAt p \<noteq> wordAt (case s of [] \<Rightarrow> None | x # _ \<Rightarrow> Some x) then [(p, s, caps)] else [])"
| "ms ic Eol (p, s, caps) = (if s = [] then [(p, s, caps)] else [])"
| "ms ic (NotAhead a) st = (if ms ic a st = [] then [st] else [])"

fun exec_from :: "bool \<Rightarrow> regex \<Rightarrow> cu option \<Rightarrow> jsstring \<Rightarrow> (nat \<times> jsstring) list option" where
  "exec_from ic r p [] = (case ms ic r (p, [], []) of [] \<Rightarrow> None | (_, _, caps) # _ \<Rightarrow> Some caps)"
| "exec_from ic r p (x # xs) =
     (case ms ic r (p, x # xs, []) of
        [] \<Rightarrow> exec_from ic r (Some x) xs
      | (_, _, caps) # _ \<Rightarrow> Some caps)"

text \<open>
  \<^verbatim>\<open>s.match(r)\<close> and \<^verbatim>\<open>r.test(s)\<close> for a pattern without the flag \<^verbatim>\<open>g\<close>: the leftmost
  position with a match, and there the first match.
\<close>

definition regex_match :: "bool \<Rightarrow> regex \<Rightarrow> jsstring \<Rightarrow> (nat \<times> jsstring) list option" where
  "regex_match ic r s = exec_from ic r None s"

definition regex_test :: "bool \<Rightarrow> regex \<Rightarrow> jsstring \<Rightarrow> bool" where
  "regex_test ic r s \<longleftrightarrow> regex_match ic r s \<noteq> None"

text \<open>
  \<^verbatim>\<open>s.replace(r, rep)\<close> for a pattern with the flag \<^verbatim>\<open>g\<close> and a replacement without
  \<^verbatim>\<open>$\<close>: matches are found from left to right and do not overlap; the counter says how
  many code units of the current match are still to be skipped; after an empty match the
  next code unit is copied.
\<close>

fun replace_go :: "bool \<Rightarrow> regex \<Rightarrow> jsstring \<Rightarrow> nat \<Rightarrow> cu option \<Rightarrow> jsstring \<Rightarrow> jsstring" where
  "replace_go ic r rep (Suc k) p [] = []"
| "replace_go ic r rep (Suc k) p (x # xs) = replace_go ic r rep k (Some x) xs"
| "replace_go ic r rep 0 p [] = (case ms ic r (p, [], []) of [] \<Rightarrow> [] | _ # _ \<Rightarrow> rep)"
| "replace_go ic r rep 0 p (x # xs) =
     (case ms ic r (p, x # xs, []) of
        [] \<Rightarrow> x # replace_go ic r rep 0 (Some x) xs
      | (_, s', _) # _ \<Rightarrow>
          (if length s' = Suc (length xs) then rep @ x # replace_go ic r rep 0 (Some x) xs
           else rep @ replace_go ic r rep (length xs - length s') (Some x) xs))"

definition replaceAll :: "bool \<Rightarrow> regex \<Rightarrow> jsstring \<Rightarrow> jsstring \<Rightarrow> jsstring" where
  "replaceAll ic r rep s = replace_go ic r rep 0 None s"

fun seqs :: "regex list \<Rightarrow> regex" where
  "seqs [] = Eps"
| "seqs [r] = r"
| "seqs (r # rs) = Seq r (seqs rs)"

fun alts :: "regex list \<Rightarrow> regex" where
  "alts [] = Chr (CSet [])"
| "alts [r] = r"
| "alts (r # rs) = Alt r (alts rs)"

definition cl :: "string \<Rightarrow> cclass" where
  "cl s = CSet (map (\<lambda>c. CLit (of_char c)) s)"

definition str :: "string \<Rightarrow> regex" where
  "str s = seqs (map (\<lambda>c. Chr (CSet [CLit (of_char c)])) s)"

definition digit :: cclass where "digit = CSet [CDigit]"
definition space :: cclass where "space = CSet [CSpace]"


section \<open>Filename episode parser\<close>

text \<open>
  \<^verbatim>\<open>extractEpisodeInfo(title)\<close> returns
  \<^verbatim>\<open>{ episode, season, isBatch, batchRange }\<close>; \<^verbatim>\<open>null\<close> fields are \<open>None\<close>.
\<close>

record episodeInfo =
  episode :: "int option"
  season :: "int option"
  isBatch :: bool
  batchRange :: "(int \<times> int) option"

datatype jsvalue = JUndefined | JNull | JString jsstring | JNumber int

datatype error = TypeError | NoVideoFiles

fun truthy :: "jsvalue \<Rightarrow> bool" where
  "truthy JUndefined = False"
| "truthy JNull = False"
| "truthy (JString s) = (s \<noteq> [])"
| "truthy (JNumber n) = (n \<noteq> 0)"

definition digitsValue :: "jsstring \<Rightarrow> int" where
  "digitsValue ds = foldl (\<lambda>acc d. acc * 10 + (d - 48)) 0 ds"

text \<open>
  \<^verbatim>\<open>parseInt(s, 10)\<close>: leading white space is skipped, a sign is read, then the longest
  prefix of decimal digits; \<open>None\<close> stands for \<^verbatim>\<open>NaN\<close>.
\<close>

definition parseInt :: "jsstring \<Rightarrow> int option" where
  "parseInt s =
     (let t = dropWhile isSpace s;
          sign = (case t of [] \<Rightarrow> 1 | c # _ \<Rightarrow> if c = 45 then - 1 else 1);
          u = (case t of [] \<Rightarrow> [] | c # r \<Rightarrow> if c = 45 \<or> c = 43 then r else t);
          ds = takeWhile isDigit u
      in if ds = [] then None else Some (sign * digitsValue ds))"

definition group :: "(nat \<times> jsstring) list \<Rightarrow> nat \<Rightarrow> jsstring option" where
  "group m n = map_of m n"

definition groupTruthy :: "(nat \<times> jsstring) list \<Rightarrow> nat \<Rightarrow> bool" where
  "groupTruthy m n = (case group m n of None \<Rightarrow> False | Some s \<Rightarrow> s \<noteq> [])"

definition groupInt :: "(nat \<times> jsstring) list \<Rightarrow> nat \<Rightarrow> int option" where
  "groupInt m n = (case group m n of None \<Rightarrow> None | Some s \<Rightarrow> parseInt s)"

definition vSuffix :: regex where
  "vSuffix = Opt (Seq (str ''v'') (Rep 1 None digit))"

text \<open>\<^verbatim>\<open>/[\[\(](\d{1,3})\s*[-~]\s*(\d{1,3})[\]\)]/i\<close>\<close>

definition batchPattern1 :: regex where
  "batchPattern1 = seqs [Chr (cl ''[(''), Cap 1 (Rep 1 (Some 3) digit), Rep 0 None space,
     Chr (cl ''-~''), Rep 0 None space, Cap 2 (Rep 1 (Some 3) digit), Chr (cl '')]'')]"

text \<open>\<^verbatim>\<open>/\b(\d{1,3})\s*[-~]\s*(\d{1,3})\s*(?:END|Complete|Batch|Fin)\b/i\<close>\<close>

definition batchPattern2 :: regex where
  "batchPattern2 = seqs [WordB, Cap 1 (Rep 1 (Some 3) digit), Rep 0 None space,
     Chr (cl ''-~''), Rep 0 None space, Cap 2 (Rep 1 (Some 3) digit), Rep 0 None space,
     alts [str ''END'', str ''Complete'', str ''Batch'', str ''Fin''], WordB]"

text \<open>
  \<^verbatim>\<open>/\b(?:Complete|Batch|XX|Season\s*Pack)\b/i\<close>, where \<^verbatim>\<open>XX\<close> are the two code units
  U+5168 U+8BDD.
\<close>

definition batchPattern3 :: regex where
  "batchPattern3 = seqs [WordB,
     alts [str ''Complete'', str ''Batch'',
           Seq (Chr (CSet [CLit 0x5168])) (Chr (CSet [CLit 0x8BDD])),
           seqs [str ''Season'', Rep 0 None space, str ''Pack'']],
     WordB]"

text \<open>\<^verbatim>\<open>/\b(?:Vol(?:ume)?\.?\s*\d+\s*[-~]\s*\d+|BD\s*Box)\b/i\<close>\<close>

definition batchPattern4 :: regex where
  "batchPattern4 = seqs [WordB,
     alts [seqs [str ''Vol'', Opt (str ''ume''), Opt (str ''.''), Rep 0 None space, Rep 1 None digit,
                 Rep 0 None space, Chr (cl ''-~''), Rep 0 None space, Rep 1 None digit],
           seqs [str ''BD'', Rep 0 None space, str ''Box'']],
     WordB]"

definition batchPatterns :: "regex list" where
  "batchPatterns = [batchPattern1, batchPattern2, batchPattern3, batchPattern4]"

text \<open>\<^verbatim>\<open>/\bS0?(\d{1,2})\s*E0?(\d{1,4})(?:v\d+)?(?!\d)/i\<close>\<close>

definition sxePattern :: regex where
  "sxePattern = seqs [WordB, str ''S'', Opt (str ''0''), Cap 1 (Rep 1 (Some 2) digit),
     Rep 0 None space, str ''E'', Opt (str ''0''), Cap 2 (Rep 1 (Some 4) digit),
     vSuffix, NotAhead (Chr digit)]"

text \<open>\<^verbatim>\<open>/\s-\s0?(\d{1,4})(?:v\d+)?(?:\s|\(|\[|$)/\<close>\<close>

definition dashEpPattern :: regex where
  "dashEpPattern = seqs [Chr space, str ''-'', Chr space, Opt (str ''0''),
     Cap 1 (Rep 1 (Some 4) digit), vSuffix, alts [Chr space, str ''('', str ''['', Eol]]"

text \<open>\<^verbatim>\<open>/\bE(?:p(?:isode)?)?\.?\s*0?(\d{1,4})(?:v\d+)?(?!\d)/i\<close>\<close>

definition epWordPattern :: regex where
  "epWordPattern = seqs [WordB, str ''E'', Opt (Seq (str ''p'') (Opt (str ''isode''))),
     Opt (str ''.''), Rep 0 None space, Opt (str ''0''), Cap 1 (Rep 1 (Some 4) digit),
     vSuffix, NotAhead (Chr digit)]"

text \<open>\<^verbatim>\<open>/[\[\(]0?(\d{1,3})(?:v\d+)?[\]\)]/\<close>\<close>

definition bracketEpPattern :: regex where
  "bracketEpPattern = seqs [Chr (cl ''[(''), Opt (str ''0''), Cap 1 (Rep 1 (Some 3) digit),
     vSuffix, Chr (cl '')]'')]"

text \<open>\<^verbatim>\<open>/[._]0?(\d{1,3})(?:v\d+)?[._]/\<close>\<close>

definition sepEpPattern :: regex where
  "sepEpPattern = seqs [Chr (cl ''._''), Opt (str ''0''), Cap 1 (Rep 1 (Some 3) digit),
     vSuffix, Chr (cl ''._'')]"

text \<open>
  \<^verbatim>\<open>/(?:#|A)0?(\d{1,4})(?:B|C|v\d+)?/\<close>, where \<^verbatim>\<open>A\<close>, \<^verbatim>\<open>B\<close>, \<^verbatim>\<open>C\<close> are the code units
  U+7B2C, U+8A71 and U+56DE.
\<close>

definition jpEpPattern :: regex where
  "jpEpPattern = seqs [alts [str ''#'', Chr (CSet [CLit 0x7B2C])], Opt (str ''0''),
     Cap 1 (Rep 1 (Some 4) digit),
     Opt (alts [Chr (CSet [CLit 0x8A71]), Chr (CSet [CLit 0x56DE]),
                Seq (str ''v'') (Rep 1 None digit)])]"

definition result0 :: episodeInfo where
  "result0 = \<lparr>episode = None, season = None, isBatch = False, batchRange = None\<rparr>"

text \<open>
  The loop over \<^verbatim>\<open>batchPatterns\<close>: the first pattern that matches sets \<^verbatim>\<open>isBatch\<close>, reads the
  range when groups 1 and 2 are there and sane, and leaves the loop.
\<close>

fun batchLoop :: "regex list \<Rightarrow> jsstring \<Rightarrow> episodeInfo \<Rightarrow> episodeInfo" where
  "batchLoop [] normalized result = result"
| "batchLoop (pattern # rest) normalized result =
     (case regex_match True pattern normalized of
        None \<Rightarrow> batchLoop rest normalized result
      | Some m \<Rightarrow>
          (if groupTruthy m 1 \<and> groupTruthy m 2 then
             (case (groupInt m 1, groupInt m 2) of
                (Some start, Some end) \<Rightarrow>
                  (if start < end \<and> end - start < 100
                   then result\<lparr>isBatch := True, batchRange := Some (start, end)\<rparr>
                   else result\<lparr>isBatch := True\<rparr>)
              | _ \<Rightarrow> result\<lparr>isBatch := True\<rparr>)
           else result\<lparr>isBatch := True\<rparr>))"

text \<open>The episode patterns, tried in order once no batch pattern has matched.\<close>

definition episodeCascade :: "jsstring \<Rightarrow> episodeInfo \<Rightarrow> episodeInfo" where
  "episodeCascade normalized result =
     (case regex_match True sxePattern normalized of
        Some sxeMatch \<Rightarrow> result\<lparr>season := groupInt sxeMatch 1, episode := groupInt sxeMatch 2\<rparr>
      | None \<Rightarrow>
     (case regex_match False dashEpPattern normalized of
        Some dashEpMatch \<Rightarrow> result\<lparr>episode := groupInt dashEpMatch 1\<rparr>
      | None \<Rightarrow>
     (case regex_match True epWordPattern normalized of
        Some epWordMatch \<Rightarrow> result\<lparr>episode := groupInt epWordMatch 1\<rparr>
      | None \<Rightarrow>
     (case (case regex_match False bracketEpPattern normalized of
              None \<Rightarrow> None
            | Some bracketEpMatch \<Rightarrow>
                (case groupInt bracketEpMatch 1 of
                   None \<Rightarrow> None
                 | Some num \<Rightarrow> if num < 1000 \<and> num > 0 then Some num else None)) of
        Some num \<Rightarrow> result\<lparr>episode := Some num\<rparr>
      | None \<Rightarrow>
     (case (case regex_match False sepEpPattern normalized of
              None \<Rightarrow> None
            | Some sepEpMatch \<Rightarrow>
                (case groupInt sepEpMatch 1 of
                   None \<Rightarrow> None
                 | Some num \<Rightarrow> if num < 500 \<and> num > 0 then Some num else None)) of
        Some num \<Rightarrow> result\<lparr>episode := Some num\<rparr>
      | None \<Rightarrow>
     (case regex_match False jpEpPattern normalized of
        Some jpEpMatch \<Rightarrow> result\<lparr>episode := groupInt jpEpMatch 1\<rparr>
      | None \<Rightarrow> result))))))"

text \<open>\<^verbatim>\<open>title.replace(/\s+/g, ' ')\<close>\<close>

definition collapseSpaces :: "jsstring \<Rightarrow> jsstring" where
  "collapseSpaces title = replaceAll False (Rep 1 None space) (js '' '') title"

definition extractFromString :: "jsstring \<Rightarrow> episodeInfo" where
  "extractFromString title =
     (let normalized = collapseSpaces title;
          result = batchLoop batchPatterns normalized result0
      in if isBatch result then result else episodeCascade normalized result)"

text \<open>
  The function itself.  A falsy argument (\<^verbatim>\<open>undefined\<close>, \<^verbatim>\<open>null\<close>, the empty string, 0) returns
  the initial result; on any other value that is not a string, \<^verbatim>\<open>title.replace\<close> is not a
  function and the call throws.
\<close>

definition extractEpisodeInfo :: "jsvalue \<Rightarrow> error + episodeInfo" where
  "extractEpisodeInfo title =
     (if \<not> truthy title then Inr result0
      else (case title of
              JString s \<Rightarrow> Inr (extractFromString s)
            | _ \<Rightarrow> Inl TypeError))"

section \<open>Validation of a torrent title\<close>

record validation =
  matches :: bool
  reason :: string
  info :: episodeInfo

definition validateTorrentEpisode :: "jsvalue \<Rightarrow> int \<Rightarrow> int \<Rightarrow> error + validation" where
  "validateTorrentEpisode title requestedEpisode requestedSeason =
     (case extractEpisodeInfo title of
        Inl e \<Rightarrow> Inl e
      | Inr i \<Rightarrow>
          Inr (if isBatch i then
                 (case batchRange i of
                    Some (start, end) \<Rightarrow>
                      (if requestedEpisode \<ge> start \<and> requestedEpisode \<le> end
                       then \<lparr>matches = True, reason = ''batch_contains_episode'', info = i\<rparr>
                       else \<lparr>matches = False, reason = ''batch_episode_out_of_range'', info = i\<rparr>)
                  | None \<Rightarrow> \<lparr>matches = True, reason = ''batch_unknown_range'', info = i\<rparr>)
               else if episode i = None then
                 \<lparr>matches = False, reason = ''no_episode_detected'', info = i\<rparr>
               else if season i \<noteq> None \<and> season i \<noteq> Some requestedSeason then
                 \<lparr>matches = False, reason = ''season_mismatch'', info = i\<rparr>
               else if episode i = Some requestedEpisode then
                 \<lparr>matches = True, reason = ''exact_match'', info = i\<rparr>
               else \<lparr>matches = False, reason = ''episode_mismatch'', info = i\<rparr>))"

section \<open>File selection of the debrid resolvers\<close>

text \<open>
  Step 3 of \<^verbatim>\<open>resolveRealDebrid(magnet, apiKey, fileIndex = 0, episode = null, season = 1)\<close>
  and the selection in \<^verbatim>\<open>getAllDebridFiles(magnetId, apiKey, fileIndex = 0, episode = null,
  season = 1)\<close>, over the file list the provider has answered.  The requested episode is a
  number or \<^verbatim>\<open>null\<close>.
\<close>

text \<open>\<^verbatim>\<open>/\.(mkv|mp4|avi|webm|ts|m2ts)$/i\<close>\<close>

definition videoExtPattern :: regex where
  "videoExtPattern = seqs [str ''.'',
     Cap 1 (alts [str ''mkv'', str ''mp4'', str ''avi'', str ''webm'', str ''ts'', str ''m2ts'']), Eol]"

text \<open>\<^verbatim>\<open>/(NCOP|NCED|Preview|Special|SP[^a-z]|OVA|Menu|Trailer|PV|CM|Bonus)/i\<close>\<close>

definition nonEpisodePattern :: regex where
  "nonEpisodePattern =
     Cap 1 (alts [str ''NCOP'', str ''NCED'', str ''Preview'', str ''Special'',
                  Seq (str ''SP'') (Chr (CNot [CRange 97 122])),
                  str ''OVA'', str ''Menu'', str ''Trailer'', str ''PV'', str ''CM'', str ''Bonus''])"

text \<open>\<^verbatim>\<open>path.split('/').pop()\<close>: what follows the last slash.\<close>

definition lastSegment :: "jsstring \<Rightarrow> jsstring" where
  "lastSegment p = rev (takeWhile (\<lambda>c. c \<noteq> 47) (rev p))"

text \<open>\<^verbatim>\<open>xs[i] || d\<close> for an array of objects: the element when the index is in range.\<close>

definition elementAt :: "'a list \<Rightarrow> int \<Rightarrow> 'a option" where
  "elementAt xs i = (if 0 \<le> i \<and> i < int (length xs) then Some (xs ! nat i) else None)"

definition episodeTruthy :: "int option \<Rightarrow> bool" where
  "episodeTruthy e = (case e of None \<Rightarrow> False | Some n \<Rightarrow> n \<noteq> 0)"

record rdFile =
  path :: jsstring
  bytes :: int
  file_id :: int

fun rdCandidates :: "rdFile list \<Rightarrow> int option \<Rightarrow> int \<Rightarrow> error + rdFile list" where
  "rdCandidates [] wantEpisode wantSeason = Inr []"
| "rdCandidates (file # videoFiles) wantEpisode wantSeason =
     (if regex_test True nonEpisodePattern (path file)
      then rdCandidates videoFiles wantEpisode wantSeason
      else (case extractEpisodeInfo (JString (lastSegment (path file))) of
              Inl e \<Rightarrow> Inl e
            | Inr i \<Rightarrow>
                (if episode i = wantEpisode \<and> \<not> (season i \<noteq> None \<and> season i \<noteq> Some wantSeason)
                 then (case rdCandidates videoFiles wantEpisode wantSeason of
                         Inl e \<Rightarrow> Inl e
                       | Inr candidates \<Rightarrow> Inr (file # candidates))
                 else rdCandidates videoFiles wantEpisode wantSeason)))"

definition resolveRealDebrid_select :: "rdFile list \<Rightarrow> int \<Rightarrow> int option \<Rightarrow> int \<Rightarrow> error + rdFile" where
  "resolveRealDebrid_select files fileIndex wantEpisode wantSeason =
     (let videoFiles = filter (\<lambda>f. regex_test True videoExtPattern (path f)) files in
      case (if episodeTruthy wantEpisode \<and> length videoFiles > 1
            then (case rdCandidates videoFiles wantEpisode wantSeason of
                    Inl e \<Rightarrow> Inl e
                  | Inr candidates \<Rightarrow>
                      Inr (case sort_key (\<lambda>c. - bytes c) candidates of
                             [] \<Rightarrow> None
                           | c # _ \<Rightarrow> Some c))
            else Inr None) of
        Inl e \<Rightarrow> Inl e
      | Inr (Some selectedFile) \<Rightarrow> Inr selectedFile
      | Inr None \<Rightarrow>
          (let sortedBySize = sort_key (\<lambda>f. - bytes f) videoFiles in
           case elementAt videoFiles fileIndex of
             Some selectedFile \<Rightarrow> Inr selectedFile
           | None \<Rightarrow>
               (case sortedBySize of
                  selectedFile # _ \<Rightarrow> Inr selectedFile
                | [] \<Rightarrow> Inl NoVideoFiles)))"

record adFile =
  filename :: jsstring
  fsize :: int
  link :: jsstring

fun adCandidates :: "adFile list \<Rightarrow> int option \<Rightarrow> int \<Rightarrow> error + adFile list" where
  "adCandidates [] wantEpisode wantSeason = Inr []"
| "adCandidates (file # videoFiles) wantEpisode wantSeason =
     (if regex_test True nonEpisodePattern (filename file)
      then adCandidates videoFiles wantEpisode wantSeason
      else (case extractEpisodeInfo (JString (filename file)) of
              Inl e \<Rightarrow> Inl e
            | Inr i \<Rightarrow>
                (if episode i = wantEpisode \<and> \<not> (season i \<noteq> None \<and> season i \<noteq> Some wantSeason)
                 then (case adCandidates videoFiles wantEpisode wantSeason of
                         Inl e \<Rightarrow> Inl e
                       | Inr candidates \<Rightarrow> Inr (file # candidates))
                 else adCandidates videoFiles wantEpisode wantSeason)))"

text \<open>
  \<^verbatim>\<open>getAllDebridFiles\<close> from the point where \<^verbatim>\<open>videoFiles\<close> has been collected (the entries
  with a link and a video extension).
\<close>

definition getAllDebridFiles_select :: "adFile list \<Rightarrow> int \<Rightarrow> int option \<Rightarrow> int \<Rightarrow> error + adFile" where
  "getAllDebridFiles_select videoFiles fileIndex wantEpisode wantSeason =
     (if length videoFiles = 0 then Inl NoVideoFiles
      else
        case (if episodeTruthy wantEpisode \<and> length videoFiles > 1
              then (case adCandidates videoFiles wantEpisode wantSeason of
                      Inl e \<Rightarrow> Inl e
                    | Inr candidates \<Rightarrow>
                        Inr (case sort_key (\<lambda>c. - fsize c) candidates of
                               [] \<Rightarrow> None
                             | c # _ \<Rightarrow> Some c))
              else Inr None) of
          Inl e \<Rightarrow> Inl e
        | Inr (Some selectedFile) \<Rightarrow> Inr selectedFile
        | Inr None \<Rightarrow>
            (case elementAt videoFiles fileIndex of
               Some selectedFile \<Rightarrow> Inr selectedFile
             | None \<Rightarrow>
                 (case sort_key (\<lambda>f. - fsize f) videoFiles of
                    selectedFile # _ \<Rightarrow> Inr selectedFile
                  | [] \<Rightarrow> Inl NoVideoFiles)))"

text \<open>
  The files the selection is meant to choose among, in the words of the specification: not
  on the denylist, parsed episode equal to the requested one, parsed season absent or equal
  to the requested one.
\<close>

definition rdSurvivor :: "int \<Rightarrow> int \<Rightarrow> rdFile \<Rightarrow> bool" where
  "rdSurvivor wantEpisode wantSeason f \<longleftrightarrow>
     \<not> regex_test True nonEpisodePattern (path f)
     \<and> (case extractEpisodeInfo (JString (lastSegment (path f))) of
          Inl e \<Rightarrow> False
        | Inr i \<Rightarrow> episode i = Some wantEpisode \<and> (season i = None \<or> season i = Some wantSeason))"

definition adSurvivor :: "int \<Rightarrow> int \<Rightarrow> adFile \<Rightarrow> bool" where
  "adSurvivor wantEpisode wantSeason f \<longleftrightarrow>
     \<not> regex_test True nonEpisodePattern (filename f)
     \<and> (case extractEpisodeInfo (JString (filename f)) of
          Inl e \<Rightarrow> False
        | Inr i \<Rightarrow> episode i = Some wantEpisode \<and> (season i = None \<or> season i = Some wantSeason))"

definition isVideo :: "rdFile \<Rightarrow> bool" where
  "isVideo f = regex_test True videoExtPattern (path f)"

text \<open>The file list of the specification's scenario (sizes in bytes), and two more lists.\<close>

definition scenarioFiles :: "rdFile list" where
  "scenarioFiles =
     [\<lparr>path = js ''Show - 05.mkv'', bytes = 419430400, file_id = 1\<rparr>,
      \<lparr>path = js ''Show - 06.mkv'', bytes = 943718400, file_id = 2\<rparr>,
      \<lparr>path = js ''Show - NCOP.mkv'', bytes = 52428800, file_id = 3\<rparr>]"

definition releaseFiles :: "rdFile list" where
  "releaseFiles =
     [\<lparr>path = js ''Show - 05 [720p].mkv'', bytes = 419430400, file_id = 1\<rparr>,
      \<lparr>path = js ''Show - 06 [1080p].mkv'', bytes = 943718400, file_id = 2\<rparr>,
      \<lparr>path = js ''Show - 05 [1080p].mkv'', bytes = 734003200, file_id = 3\<rparr>,
      \<lparr>path = js ''Show - NCOP.mkv'', bytes = 2147483648, file_id = 4\<rparr>]"

definition otherEpisodesRd :: "rdFile list" where
  "otherEpisodesRd =
     [\<lparr>path = js ''Show - 07 [720p].mkv'', bytes = 419430400, file_id = 1\<rparr>,
      \<lparr>path = js ''Show - 06 [1080p].mkv'', bytes = 943718400, file_id = 2\<rparr>]"

definition otherEpisodesAd :: "adFile list" where
  "otherEpisodesAd =
     [\<lparr>filename = js ''Show - 07 [720p].mkv'', fsize = 419430400, link = js ''l1''\<rparr>,
      \<lparr>filename = js ''Show - 06 [1080p].mkv'', fsize = 943718400, link = js ''l2''\<rparr>]"

section \<open>Double-precision arithmetic of the runtime\<close>

text \<open>
  The numbers of the runtime are IEEE 754 doubles.  A finite double is modelled by the
  rational it denotes, and an arithmetic operation by the exact operation followed by
  \<open>rd\<close>, rounding to the nearest number with a significand of 53 bits, ties to the even
  significand.  The exponent is not bounded in the model: the magnitudes that occur in the
  code modelled here are 0 or lie between \<open>2 ^ - 53\<close> and 128, far from overflow and from the
  subnormal numbers.
\<close>

function bitlen :: "int \<Rightarrow> nat" where
  "bitlen n = (if n \<le> 0 then 0 else Suc (bitlen (n div 2)))"
  by pat_completeness auto
termination
  by (relation "measure nat") auto

declare bitlen.simps [simp del]

text \<open>The exponent \<open>e\<close> of a positive rational \<open>x\<close>: \<open>2 ^ e \<le> x < 2 ^ (e + 1)\<close>.\<close>

definition expo :: "rat \<Rightarrow> int" where
  "expo x =
     (let (p, q) = quotient_of x;
          k = int (bitlen p) - int (bitlen q)
      in if 2 powi k \<le> x then k else k - 1)"

definition roundHalfEven :: "rat \<Rightarrow> int" where
  "roundHalfEven m =
     (let f = \<lfloor>m\<rfloor>; d = m - of_int f
      in if d < 1 / 2 then f
         else if d > 1 / 2 then f + 1
         else if even f then f else f + 1)"

definition rd :: "rat \<Rightarrow> rat" where
  "rd x =
     (if x = 0 then 0
      else
        (let a = \<bar>x\<bar>;
             u = 2 powi (expo a - 52);
             r = of_int (roundHalfEven (a / u)) * u
         in if x < 0 then - r else r))"

definition ddiv :: "rat \<Rightarrow> rat \<Rightarrow> rat" where
  "ddiv a b = rd (a / b)"

definition dmul :: "rat \<Rightarrow> rat \<Rightarrow> rat" where
  "dmul a b = rd (a * b)"

definition dadd :: "rat \<Rightarrow> rat \<Rightarrow> rat" where
  "dadd a b = rd (a + b)"


section \<open>Fuzzy matcher\<close>

text \<open>
  \<^verbatim>\<open>levenshteinDistance(str1, str2)\<close> fills a table \<^verbatim>\<open>dp\<close> of \<open>m + 1\<close> rows and \<open>n + 1\<close>
  columns: first column, first row, then row by row.  The table is a list of rows; every
  index the loops use is in range.  Characters are only compared, so the model is
  polymorphic in them.
\<close>

definition dpCell :: "'a list \<Rightarrow> 'a list \<Rightarrow> nat \<Rightarrow> nat \<Rightarrow> nat list list \<Rightarrow> nat list list" where
  "dpCell str1 str2 i j dp =
     (let cost = (if str1 ! (i - 1) = str2 ! (j - 1) then 0 else 1)
      in dp[i := (dp ! i)[j := min (dp ! (i - 1) ! j + 1)
                                 (min (dp ! i ! (j - 1) + 1) (dp ! (i - 1) ! (j - 1) + cost))]])"

definition levenshteinDistance :: "'a list \<Rightarrow> 'a list \<Rightarrow> nat" where
  "levenshteinDistance str1 str2 =
     (let m = length str1; n = length str2 in
      if m = 0 then n
      else if n = 0 then m
      else
        (let dp0 = replicate (m + 1) (replicate (n + 1) 0);
             dp1 = fold (\<lambda>i dp. dp[i := (dp ! i)[0 := i]]) [0..<m + 1] dp0;
             dp2 = fold (\<lambda>j dp. dp[0 := (dp ! 0)[j := j]]) [0..<n + 1] dp1;
             dp3 = fold (\<lambda>i dp. fold (\<lambda>j dp. dpCell str1 str2 i j dp) [1..<n + 1] dp) [1..<m + 1] dp2
         in dp3 ! m ! n))"

text \<open>
  \<^verbatim>\<open>stringSimilarity\<close> computes \<^verbatim>\<open>((maxLen - distance) / maxLen) * 100\<close> in double
  precision.  The two lengths and their difference are integers far below \<open>2 ^ 53\<close>, which
  doubles hold exactly; the quotient and the product are rounded.
\<close>

definition stringSimilarity :: "'a list \<Rightarrow> 'a list \<Rightarrow> rat" where
  "stringSimilarity str1 str2 =
     (let maxLen = max (length str1) (length str2) in
      if maxLen = 0 then 100
      else
        (let distance = levenshteinDistance str1 str2
         in dmul (ddiv (of_int (int maxLen - int distance)) (of_int (int maxLen))) 100))"

text \<open>The recurrence the table follows, used to reason about the loops.\<close>

fun lev_ij :: "'a list \<Rightarrow> 'a list \<Rightarrow> nat \<Rightarrow> nat \<Rightarrow> nat" where
  "lev_ij a b 0 j = j"
| "lev_ij a b (Suc i) 0 = Suc i"
| "lev_ij a b (Suc i) (Suc j) =
     min (lev_ij a b i (Suc j) + 1)
         (min (lev_ij a b (Suc i) j + 1) (lev_ij a b i j + (if a ! i = b ! j then 0 else 1)))"

definition dpShape :: "nat \<Rightarrow> nat \<Rightarrow> nat list list \<Rightarrow> bool" where
  "dpShape m n dp \<longleftrightarrow> length dp = Suc m \<and> (\<forall>r\<le>m. length (dp ! r) = Suc n)"

definition dpInv :: "'a list \<Rightarrow> 'a list \<Rightarrow> nat \<Rightarrow> nat \<Rightarrow> nat \<Rightarrow> nat \<Rightarrow> nat list list \<Rightarrow> bool" where
  "dpInv a b m n i j dp \<longleftrightarrow>
     dpShape m n dp
     \<and> (\<forall>r\<le>m. \<forall>c\<le>n. (r = 0 \<or> c = 0 \<or> r < i \<or> (r = i \<and> c < j)) \<longrightarrow> dp ! r ! c = lev_ij a b r c)"

section \<open>Show-identity resolver: the search tier\<close>

text \<open>
  \<^verbatim>\<open>findAllAnimeShow(title, malId = null, aniListId = null)\<close> from the point where the search
  has answered with \<^verbatim>\<open>results\<close>.  A result row has the fields \<^verbatim>\<open>id\<close>, \<^verbatim>\<open>title\<close>,
  \<^verbatim>\<open>nativeTitle\<close>, \<^verbatim>\<open>type\<close>, \<^verbatim>\<open>malId\<close>, \<^verbatim>\<open>aniListId\<close>; absent values are \<open>None\<close>.
  \<^verbatim>\<open>String.prototype.toLowerCase\<close> belongs to the runtime, with its Unicode tables, and is a
  parameter \<open>lower\<close> of the model.  Scores are doubles: \<^verbatim>\<open>similarity * 0.9\<close> and the
  additions of 3 and 2 are rounded, and \<^verbatim>\<open>0.9\<close> is the double nearest to nine tenths.
\<close>

record showCandidate =
  sc_id :: jsstring
  sc_title :: "jsstring option"
  sc_nativeTitle :: "jsstring option"
  sc_type :: "jsstring option"
  sc_malId :: "int option"
  sc_aniListId :: "int option"

definition orEmpty :: "jsstring option \<Rightarrow> jsstring" where
  "orEmpty s = (case s of None \<Rightarrow> [] | Some t \<Rightarrow> t)"

text \<open>\<^verbatim>\<open>a.includes(b)\<close>\<close>

fun jsIncludes :: "jsstring \<Rightarrow> jsstring \<Rightarrow> bool" where
  "jsIncludes [] b = (b = [])"
| "jsIncludes (x # xs) b = (take (length b) (x # xs) = b \<or> jsIncludes xs b)"

text \<open>\<^verbatim>\<open>.replace(/[^a-z0-9]/g, '')\<close>\<close>

definition stripNonAlnum :: "jsstring \<Rightarrow> jsstring" where
  "stripNonAlnum s = replaceAll False (Chr (CNot [CRange 97 122, CRange 48 57])) [] s"

definition idTruthy :: "int option \<Rightarrow> bool" where
  "idTruthy i = (case i of None \<Rightarrow> False | Some n \<Rightarrow> n \<noteq> 0)"

definition idMatches :: "int option \<Rightarrow> int option \<Rightarrow> showCandidate \<Rightarrow> bool" where
  "idMatches malId aniListId r \<longleftrightarrow>
     (idTruthy malId \<and> sc_malId r = malId) \<or> (idTruthy aniListId \<and> sc_aniListId r = aniListId)"

definition showScore :: "(jsstring \<Rightarrow> jsstring) \<Rightarrow> jsstring \<Rightarrow> showCandidate \<Rightarrow> rat" where
  "showScore lower normalizedSearchTitle show =
     (let showName = stripNonAlnum (lower (orEmpty (sc_title show)));
          nativeTitle = stripNonAlnum (lower (orEmpty (sc_nativeTitle show)));
          score0 =
            (if showName = normalizedSearchTitle then 100
             else if jsIncludes showName normalizedSearchTitle \<or> jsIncludes normalizedSearchTitle showName
             then 80
             else dmul (max (stringSimilarity normalizedSearchTitle showName)
                            (stringSimilarity normalizedSearchTitle nativeTitle)) (rd (9 / 10)));
          score1 = (if sc_type show = Some (js ''TV'') then dadd score0 3 else score0);
          score2 = (if sc_type show = Some (js ''Movie'') then dadd score1 2 else score1)
      in score2)"

fun bestMatchLoop :: "(jsstring \<Rightarrow> jsstring) \<Rightarrow> jsstring \<Rightarrow> showCandidate list
    \<Rightarrow> showCandidate option \<times> rat \<Rightarrow> showCandidate option \<times> rat" where
  "bestMatchLoop lower nst [] (bestMatch, bestScore) = (bestMatch, bestScore)"
| "bestMatchLoop lower nst (show # results) (bestMatch, bestScore) =
     (let score = showScore lower nst show
      in if score > bestScore then bestMatchLoop lower nst results (Some show, score)
         else bestMatchLoop lower nst results (bestMatch, bestScore))"

definition findAllAnimeShow_search ::
    "(jsstring \<Rightarrow> jsstring) \<Rightarrow> jsstring \<Rightarrow> int option \<Rightarrow> int option \<Rightarrow> showCandidate list
     \<Rightarrow> jsstring option" where
  "findAllAnimeShow_search lower searchTitle malId aniListId results =
     (if length results = 0 then None
      else
        (case (if idTruthy malId \<or> idTruthy aniListId
               then find (idMatches malId aniListId) results else None) of
           Some idMatch \<Rightarrow> Some (sc_id idMatch)
         | None \<Rightarrow>
             (let normalizedSearchTitle = stripNonAlnum (lower searchTitle);
                  (bestMatch, bestScore) = bestMatchLoop lower normalizedSearchTitle results (None, 0);
                  threshold = (if idTruthy malId \<or> idTruthy aniListId then 75 else 60)
              in (case bestMatch of
                    Some b \<Rightarrow> if bestScore \<ge> threshold then Some (sc_id b) else None
                  | None \<Rightarrow> None))))"

text \<open>Lower-casing of ASCII letters, which is what the runtime does on ASCII strings.\<close>

definition asciiLower :: "jsstring \<Rightarrow> jsstring" where
  "asciiLower s = map lowerA s"

definition frierenRows :: "showCandidate list" where
  "frierenRows =
     [\<lparr>sc_id = js ''id1'', sc_title = Some (js ''Other Show''), sc_nativeTitle = None,
       sc_type = Some (js ''TV''), sc_malId = Some 7, sc_aniListId = None\<rparr>,
      \<lparr>sc_id = js ''id2'', sc_title = Some (js ''Frieren''), sc_nativeTitle = None,
       sc_type = Some (js ''TV''), sc_malId = Some 52991, sc_aniListId = Some 154587\<rparr>]"

definition abdRows :: "showCandidate list" where
  "abdRows =
     [\<lparr>sc_id = js ''id1'', sc_title = Some (js ''abd''), sc_nativeTitle = None,
       sc_type = Some (js ''OVA''), sc_malId = None, sc_aniListId = None\<rparr>]"


section \<open>Title normalizer\<close>

text \<open>
  \<^verbatim>\<open>normalizeTitle(title)\<close> of the database builder: lower-casing, trimming, and a chain of
  global replacements.  \<^verbatim>\<open>toLowerCase\<close> and \<^verbatim>\<open>normalize('NFD')\<close> belong to the runtime,
  with its Unicode tables, and are the parameters \<open>lower\<close> and \<open>nfd\<close>.
\<close>

text \<open>\<^verbatim>\<open>String.prototype.trim\<close>\<close>

definition trim :: "jsstring \<Rightarrow> jsstring" where
  "trim s = rev (dropWhile isSpace (rev (dropWhile isSpace s)))"

text \<open>\<^verbatim>\<open>/\([^)]*\)/g\<close>\<close>

definition nt_parens :: regex where
  "nt_parens = seqs [str ''('', Rep 0 None (CNot [CLit 41]), str '')'']"

text \<open>\<^verbatim>\<open>/\[[^\]]*\]/g\<close>\<close>

definition nt_brackets :: regex where
  "nt_brackets = seqs [str ''['', Rep 0 None (CNot [CLit 93]), str '']'']"

text \<open>
  A class of fourteen full-width and CJK punctuation marks: U+FF1A, U+30FB, U+300C to
  U+300F, U+3010, U+3011, U+3008 to U+300B, U+FF08, U+FF09.
\<close>

definition nt_cjkPunct :: regex where
  "nt_cjkPunct = Chr (CSet [CLit 0xFF1A, CLit 0x30FB, CLit 0x300C, CLit 0x300D, CLit 0x300E,
     CLit 0x300F, CLit 0x3010, CLit 0x3011, CLit 0x3008, CLit 0x3009, CLit 0x300A, CLit 0x300B,
     CLit 0xFF08, CLit 0xFF09])"

text \<open>\<^verbatim>\<open>/[^\w\s\u3040-\u309f\u30a0-\u30ff\u4e00-\u9faf-]/g\<close>\<close>

definition nt_other :: regex where
  "nt_other = Chr (CNot [CWord, CSpace, CRange 0x3040 0x309F, CRange 0x30A0 0x30FF,
     CRange 0x4E00 0x9FAF, CLit 45])"

text \<open>\<^verbatim>\<open>/[\u0300-\u036f]/g\<close>\<close>

definition nt_combining :: regex where
  "nt_combining = Chr (CSet [CRange 0x300 0x36F])"

text \<open>\<^verbatim>\<open>/\s+(the\s+)?(animation|animated|anime|ova|ona|movie|film|special|tv|series)s?$/gi\<close>\<close>

definition nt_format :: regex where
  "nt_format = seqs [Rep 1 None space, Opt (Cap 1 (Seq (str ''the'') (Rep 1 None space))),
     Cap 2 (alts [str ''animation'', str ''animated'', str ''anime'', str ''ova'', str ''ona'',
                  str ''movie'', str ''film'', str ''special'', str ''tv'', str ''series'']),
     Opt (str ''s''), Eol]"

text \<open>\<^verbatim>\<open>/\s+(season|part|cour|chapter|arc)\s*\d*$/gi\<close>\<close>

definition nt_season :: regex where
  "nt_season = seqs [Rep 1 None space,
     Cap 1 (alts [str ''season'', str ''part'', str ''cour'', str ''chapter'', str ''arc'']),
     Rep 0 None space, Rep 0 None digit, Eol]"

text \<open>\<^verbatim>\<open>/\s+(1st|2nd|3rd|\d+th)\s+(season|part|cour)$/gi\<close>\<close>

definition nt_ordinal :: regex where
  "nt_ordinal = seqs [Rep 1 None space,
     Cap 1 (alts [str ''1st'', str ''2nd'', str ''3rd'', Seq (Rep 1 None digit) (str ''th'')]),
     Rep 1 None space, Cap 2 (alts [str ''season'', str ''part'', str ''cour'']), Eol]"

text \<open>\<^verbatim>\<open>/\s+[ivx]+$/gi\<close>\<close>

definition nt_roman :: regex where
  "nt_roman = seqs [Rep 1 None space, Rep 1 None (cl ''ivx''), Eol]"

text \<open>\<^verbatim>\<open>/\s*s\d+\s*/gi\<close>\<close>

definition nt_sN :: regex where
  "nt_sN = seqs [Rep 0 None space, str ''s'', Rep 1 None digit, Rep 0 None space]"

text \<open>\<^verbatim>\<open>/\s*ep\.?\s*\d+/gi\<close>\<close>

definition nt_ep :: regex where
  "nt_ep = seqs [Rep 0 None space, str ''ep'', Opt (str ''.''), Rep 0 None space, Rep 1 None digit]"

text \<open>\<^verbatim>\<open>/\bW\b/g\<close> for a word \<^verbatim>\<open>W\<close>\<close>

definition nt_word :: "string \<Rightarrow> regex" where
  "nt_word w = seqs [WordB, str w, WordB]"


text \<open>The canonical decomposition leaves ASCII strings as they are.\<close>

definition asciiNFD :: "jsstring \<Rightarrow> jsstring" where
  "asciiNFD s = s"

text \<open>
  The patterns of the chain, the collapse of white space apart, each with its flag
  \<^verbatim>\<open>i\<close>.
\<close>

definition ntPatterns :: "(bool \<times> regex) list" where
  "ntPatterns =
     [(False, nt_parens), (False, nt_brackets), (False, nt_cjkPunct), (False, nt_other),
      (False, nt_combining), (False, str ''ou''), (False, str ''uu''), (False, str ''aa''),
      (False, str ''ii''), (False, str ''ee''), (True, nt_format), (True, nt_season),
      (True, nt_ordinal), (True, nt_roman), (True, nt_sN), (True, nt_ep),
      (False, nt_word ''and''), (False, nt_word ''the''), (False, nt_word ''a''),
      (False, Rep 1 None (cl ''-''))]"

text \<open>White space occurs only as single blanks (U+0020).\<close>

fun singleSpaced :: "jsstring \<Rightarrow> bool" where
  "singleSpaced [] = True"
| "singleSpaced [x] = (if isSpace x then x = 32 else True)"
| "singleSpaced (x # y # r) =
     ((if isSpace x then x = 32 \<and> \<not> isSpace y else True) \<and> singleSpaced (y # r))"

text \<open>
  A string in which the normalizer finds nothing to rewrite: lower-casing, decomposition
  and trimming leave it as it is, its white space is single blanks, and none of the
  patterns of the chain occurs in it.
\<close>

definition settled :: "(jsstring \<Rightarrow> jsstring) \<Rightarrow> (jsstring \<Rightarrow> jsstring) \<Rightarrow> jsstring \<Rightarrow> bool" where
  "settled lower nfd t \<longleftrightarrow>
     lower t = t \<and> nfd t = t \<and> trim t = t \<and> singleSpaced t
     \<and> list_all (\<lambda>(ic, r). \<not> regex_test ic r t) ntPatterns"


section \<open>Results\<close>

subsection \<open>Absolute-episode mapper\<close>

text \<open>
  C4. The mapper returns the episode unchanged when the series has no table entry or the entry
  has no row for the season; otherwise it returns \<open>start + (episode - 1)\<close>, replaced by \<open>end\<close>
  when that sum exceeds \<open>end\<close>.  With the row \<open>{season 21, 892, 1085}\<close> episode 1 maps to
  892 and episode 300 to 1085.
\<close>

theorem convertToAbsoluteEpisode_spec:
  "(tbl imdbId = None \<longrightarrow> convertToAbsoluteEpisode tbl imdbId sn ep = ep)
   \<and> (\<forall>seasons. tbl imdbId = Some seasons \<and> find (\<lambda>s. season_no s = sn) seasons = None
        \<longrightarrow> convertToAbsoluteEpisode tbl imdbId sn ep = ep)
   \<and> (\<forall>seasons r. tbl imdbId = Some seasons \<and> find (\<lambda>s. season_no s = sn) seasons = Some r
        \<longrightarrow> convertToAbsoluteEpisode tbl imdbId sn ep
            = min (range_start r + (ep - 1)) (range_end r))
   \<and> convertToAbsoluteEpisode seriesX_table ''seriesX'' 21 1 = 892
   \<and> convertToAbsoluteEpisode seriesX_table ''seriesX'' 21 300 = 1085"
  by (simp add: convertToAbsoluteEpisode_def seriesX_table_def Let_def min_def)

theorem convertToAbsoluteEpisode_spec_witness:
  "convertToAbsoluteEpisode seriesX_table ''nope'' 21 7 = 7
   \<and> convertToAbsoluteEpisode seriesX_table ''seriesX'' 3 7 = 7
   \<and> convertToAbsoluteEpisode seriesX_table ''seriesX'' 21 7 = 898"
proof -
  have a: "seriesX_table ''nope'' = None"
    by (simp add: seriesX_table_def)
  have b: "seriesX_table ''seriesX'' = Some [\<lparr>season_no = 21, range_start = 892, range_end = 1085\<rparr>]"
    by (simp add: seriesX_table_def)
  have c: "find (\<lambda>s. season_no s = 3) [\<lparr>season_no = 21, range_start = 892, range_end = 1085\<rparr>] = None"
    by simp
  have d: "find (\<lambda>s. season_no s = 21) [\<lparr>season_no = 21, range_start = 892, range_end = 1085\<rparr>]
           = Some \<lparr>season_no = 21, range_start = 892, range_end = 1085\<rparr>"
    by simp
  from convertToAbsoluteEpisode_spec [of seriesX_table "''nope''" 21 7] a
  have 1: "convertToAbsoluteEpisode seriesX_table ''nope'' 21 7 = 7" by blast
  from convertToAbsoluteEpisode_spec [of seriesX_table "''seriesX''" 3 7] b c
  have 2: "convertToAbsoluteEpisode seriesX_table ''seriesX'' 3 7 = 7" by blast
  from convertToAbsoluteEpisode_spec [of seriesX_table "''seriesX''" 21 7] b d
  have 3: "convertToAbsoluteEpisode seriesX_table ''seriesX'' 21 7
           = min (range_start \<lparr>season_no = 21, range_start = 892, range_end = 1085\<rparr> + (7 - 1))
                 (range_end \<lparr>season_no = 21, range_start = 892, range_end = 1085\<rparr>)" by blast
  from 1 2 3 show ?thesis by simp
qed

subsection \<open>Filename episode parser and title validation\<close>

lemmas rx_eval = js_def regex_match_def regex_test_def replaceAll_def cl_def str_def digit_def space_def
  isDigit_def isSpace_def isWordChar_def upperA_def lowerA_def wordAt_def
  vSuffix_def batchPattern1_def batchPattern2_def batchPattern3_def batchPattern4_def batchPatterns_def
  sxePattern_def dashEpPattern_def epWordPattern_def bracketEpPattern_def sepEpPattern_def jpEpPattern_def
  group_def groupTruthy_def groupInt_def parseInt_def digitsValue_def collapseSpaces_def
  result0_def episodeCascade_def extractFromString_def extractEpisodeInfo_def Let_def

lemma extractEpisodeInfo_JString:
  "extractEpisodeInfo (JString s) = Inr (if s = [] then result0 else extractFromString s)"
  by (simp add: extractEpisodeInfo_def)










text \<open>
  C7. The three scenarios of the specification: a dash-separated episode, a season and
  episode marker, and a bracketed range.
\<close>

theorem extractEpisodeInfo_scenarios:
  "extractEpisodeInfo (JString (js ''[SubsPlease] Frieren - 05 (1080p).mkv''))
     = Inr \<lparr>episode = Some 5, season = None, isBatch = False, batchRange = None\<rparr>
   \<and> extractEpisodeInfo (JString (js ''[Group] Show S02E03 (WEB 1080p).mkv''))
     = Inr \<lparr>episode = Some 3, season = Some 2, isBatch = False, batchRange = None\<rparr>
   \<and> extractEpisodeInfo (JString (js ''[Group] Show [01-12][BD 1080p] Batch''))
     = Inr \<lparr>episode = None, season = None, isBatch = True, batchRange = Some (1, 12)\<rparr>"
proof (intro conjI)
  show "extractEpisodeInfo (JString (js ''[SubsPlease] Frieren - 05 (1080p).mkv''))
     = Inr \<lparr>episode = Some 5, season = None, isBatch = False, batchRange = None\<rparr>"
    by (simp add: rx_eval)
  show "extractEpisodeInfo (JString (js ''[Group] Show S02E03 (WEB 1080p).mkv''))
     = Inr \<lparr>episode = Some 3, season = Some 2, isBatch = False, batchRange = None\<rparr>"
    by (simp add: rx_eval)
  show "extractEpisodeInfo (JString (js ''[Group] Show [01-12][BD 1080p] Batch''))
     = Inr \<lparr>episode = None, season = None, isBatch = True, batchRange = Some (1, 12)\<rparr>"
    by (simp add: rx_eval)
qed

text \<open>
  C9. On a title parsed as a batch, \<^verbatim>\<open>validateTorrentEpisode\<close> matches exactly when the
  requested episode lies in the batch range, and always when the range is unknown.
\<close>

theorem validateTorrentEpisode_batch:
  assumes "extractEpisodeInfo title = Inr i" and "isBatch i"
  shows "\<exists>v. validateTorrentEpisode title requestedEpisode requestedSeason = Inr v
           \<and> info v = i
           \<and> (case batchRange i of
                 Some (start, end) \<Rightarrow> matches v \<longleftrightarrow> start \<le> requestedEpisode \<and> requestedEpisode \<le> end
               | None \<Rightarrow> matches v)"
  using assms by (auto simp: validateTorrentEpisode_def split: option.splits)

theorem validateTorrentEpisode_batch_witness:
  "(\<exists>v. validateTorrentEpisode (JString (js ''[Group] Show [01-12][BD 1080p] Batch'')) 5 1 = Inr v \<and> matches v)
   \<and> (\<exists>v. validateTorrentEpisode (JString (js ''[Group] Show [01-12][BD 1080p] Batch'')) 13 1 = Inr v \<and> \<not> matches v)
   \<and> (\<exists>v. validateTorrentEpisode (JString (js ''Show Season Pack'')) 13 1 = Inr v \<and> matches v)"
proof -
  have a: "extractEpisodeInfo (JString (js ''[Group] Show [01-12][BD 1080p] Batch''))
     = Inr \<lparr>episode = None, season = None, isBatch = True, batchRange = Some (1, 12)\<rparr>"
    by (simp add: rx_eval)
  have b: "extractEpisodeInfo (JString (js ''Show Season Pack''))
     = Inr \<lparr>episode = None, season = None, isBatch = True, batchRange = None\<rparr>"
    by (simp add: rx_eval)
  from validateTorrentEpisode_batch [OF a, of 5 1] have 1:
    "\<exists>v. validateTorrentEpisode (JString (js ''[Group] Show [01-12][BD 1080p] Batch'')) 5 1 = Inr v \<and> matches v"
    by auto
  from validateTorrentEpisode_batch [OF a, of 13 1] have 2:
    "\<exists>v. validateTorrentEpisode (JString (js ''[Group] Show [01-12][BD 1080p] Batch'')) 13 1 = Inr v \<and> \<not> matches v"
    by auto
  from validateTorrentEpisode_batch [OF b, of 13 1] have 3:
    "\<exists>v. validateTorrentEpisode (JString (js ''Show Season Pack'')) 13 1 = Inr v \<and> matches v"
    by auto
  from 1 2 3 show ?thesis by blast
qed

text \<open>
  C10. An absent or empty title gives the initial result, and every string gives a result:
  the only throwing branch is a truthy argument that is not a string.
\<close>

theorem extractEpisodeInfo_total:
  "extractEpisodeInfo JNull = Inr \<lparr>episode = None, season = None, isBatch = False, batchRange = None\<rparr>
   \<and> extractEpisodeInfo JUndefined = Inr \<lparr>episode = None, season = None, isBatch = False, batchRange = None\<rparr>
   \<and> extractEpisodeInfo (JString []) = Inr \<lparr>episode = None, season = None, isBatch = False, batchRange = None\<rparr>
   \<and> (\<forall>s. \<exists>r. extractEpisodeInfo (JString s) = Inr r)"
  by (simp add: extractEpisodeInfo_def result0_def)

subsection \<open>File selection\<close>

lemma sort_key_hd_min:
  fixes f :: "'a \<Rightarrow> int"
  assumes "sort_key f xs = c # rest"
  shows "c \<in> set xs \<and> (\<forall>x\<in>set xs. f c \<le> f x)"
proof -
  have s: "set (sort_key f xs) = set xs" by simp
  have "sorted (map f (sort_key f xs))" by (rule sorted_sort_key)
  with assms have "\<forall>x\<in>set rest. f c \<le> f x" by simp
  moreover from s assms have "set xs = insert c (set rest)" by simp
  ultimately show ?thesis by auto
qed

lemma sort_key_Nil_iff: "sort_key f xs = [] \<longleftrightarrow> xs = []"
  by (metis length_sort list.size(3) length_0_conv)

lemma rdCandidates_filter:
  "rdCandidates fs (Some e) s = Inr (filter (rdSurvivor e s) fs)"
  by (induction fs) (auto simp: rdSurvivor_def extractEpisodeInfo_JString)

lemma adCandidates_filter:
  "adCandidates fs (Some e) s = Inr (filter (adSurvivor e s) fs)"
  by (induction fs) (auto simp: adSurvivor_def extractEpisodeInfo_JString)

lemma elementAt_mem: "elementAt xs i = Some x \<Longrightarrow> x \<in> set xs"
  by (auto simp: elementAt_def split: if_splits)

lemma elementAt_single: "elementAt [x] i = Some y \<Longrightarrow> y = x"
  by (auto simp: elementAt_def split: if_splits)

lemma select_largest_survivor:
  assumes "e \<noteq> 0" and "filter (rdSurvivor e s) (filter isVideo files) \<noteq> []"
  shows "\<exists>c. resolveRealDebrid_select files fileIndex (Some e) s = Inr c
            \<and> c \<in> set (filter (rdSurvivor e s) (filter isVideo files))
            \<and> (\<forall>c'\<in>set (filter (rdSurvivor e s) (filter isVideo files)). bytes c' \<le> bytes c)"
proof -
  define vf where "vf = filter isVideo files"
  define cs where "cs = filter (rdSurvivor e s) vf"
  have vf: "filter (\<lambda>f. regex_test True videoExtPattern (path f)) files = vf"
    by (simp add: vf_def isVideo_def [abs_def])
  from assms have ne: "cs \<noteq> []" by (simp add: cs_def vf_def)
  then have vne: "vf \<noteq> []" by (auto simp: cs_def)
  show ?thesis
  proof (cases "length vf > 1")
    case True
    from ne obtain c rest where srt: "sort_key (\<lambda>c. - bytes c) cs = c # rest"
      by (cases "sort_key (\<lambda>c. - bytes c) cs") (auto simp: sort_key_Nil_iff)
    from sort_key_hd_min [OF srt] have "c \<in> set cs" "\<forall>x\<in>set cs. bytes x \<le> bytes c" by auto
    moreover have "resolveRealDebrid_select files fileIndex (Some e) s = Inr c"
      using True assms(1) srt
      by (simp add: resolveRealDebrid_select_def vf Let_def episodeTruthy_def
          rdCandidates_filter cs_def [symmetric])
    ultimately show ?thesis by (auto simp: cs_def vf_def)
  next
    case False
    with vne obtain x where x: "vf = [x]" by (cases vf) auto
    with ne have cx: "cs = [x]" by (auto simp: cs_def split: if_splits)
    have "resolveRealDebrid_select files fileIndex (Some e) s = Inr x"
      using x by (auto simp: resolveRealDebrid_select_def vf Let_def
          split: option.splits dest: elementAt_single)
    with cx show ?thesis by (auto simp: cs_def vf_def)
  qed
qed

lemmas sel_eval = videoExtPattern_def nonEpisodePattern_def lastSegment_def elementAt_def
  episodeTruthy_def isVideo_def rdSurvivor_def adSurvivor_def

lemma scenario_candidates: "rdCandidates scenarioFiles (Some 5) 1 = Inr []"
  by (simp add: scenarioFiles_def sel_eval rx_eval)

lemma scenario_videos: "filter (\<lambda>f. regex_test True videoExtPattern (path f)) scenarioFiles = scenarioFiles"
  by (simp add: scenarioFiles_def sel_eval rx_eval)

lemma ncop_denylisted: "regex_test True nonEpisodePattern (js ''Show - NCOP.mkv'')"
  by (simp add: sel_eval rx_eval)

text \<open>
  C2, as stated, fails.  In the scenario no file name parses to episode 5: after
  \<^verbatim>\<open> - 05\<close> comes a dot, where the dash pattern wants white space, a bracket or the end, and
  no other pattern applies.  The candidate list is empty and the file returned is the video
  file at the file index: with index 1 the file of episode 6, with index 2 the NCOP file.
\<close>

theorem select_scenario_counterexample:
  "extractEpisodeInfo (JString (js ''Show - 05.mkv''))
     = Inr \<lparr>episode = None, season = None, isBatch = False, batchRange = None\<rparr>
   \<and> rdCandidates scenarioFiles (Some 5) 1 = Inr []
   \<and> resolveRealDebrid_select scenarioFiles 1 (Some 5) 1
     = Inr \<lparr>path = js ''Show - 06.mkv'', bytes = 943718400, file_id = 2\<rparr>
   \<and> resolveRealDebrid_select scenarioFiles 2 (Some 5) 1
     = Inr \<lparr>path = js ''Show - NCOP.mkv'', bytes = 52428800, file_id = 3\<rparr>"
proof (intro conjI)
  show "extractEpisodeInfo (JString (js ''Show - 05.mkv''))
     = Inr \<lparr>episode = None, season = None, isBatch = False, batchRange = None\<rparr>"
    by (simp add: rx_eval)
  show "rdCandidates scenarioFiles (Some 5) 1 = Inr []"
    by (rule scenario_candidates)
  show "resolveRealDebrid_select scenarioFiles 1 (Some 5) 1
     = Inr \<lparr>path = js ''Show - 06.mkv'', bytes = 943718400, file_id = 2\<rparr>"
    unfolding resolveRealDebrid_select_def scenario_videos Let_def
    by (simp add: scenario_candidates episodeTruthy_def elementAt_def) (simp add: scenarioFiles_def)
  show "resolveRealDebrid_select scenarioFiles 2 (Some 5) 1
     = Inr \<lparr>path = js ''Show - NCOP.mkv'', bytes = 52428800, file_id = 3\<rparr>"
    unfolding resolveRealDebrid_select_def scenario_videos Let_def
    by (simp add: scenario_candidates episodeTruthy_def elementAt_def) (simp add: scenarioFiles_def)
qed

text \<open>
  C2, amended.  For the file list of the scenario, season 1, episode 5 and the file index
  at its default 0, the file returned is \<^verbatim>\<open>Show - 05.mkv\<close>, not the larger file of episode
  6.  The loop over the video files keeps exactly the survivors (not on the denylist,
  parsed episode equal to the requested one, parsed season absent or equal to the requested
  one), and \<^verbatim>\<open>Show - NCOP.mkv\<close> is none, whatever its size.  Whenever the requested episode
  is not 0 and some video file survives, the file selected is a survivor of largest size,
  whatever the file index; it is not on the denylist, and it is not the NCOP file.
\<close>

theorem select_largest_survivor_spec:
  "resolveRealDebrid_select scenarioFiles 0 (Some 5) 1
       = Inr \<lparr>path = js ''Show - 05.mkv'', bytes = 419430400, file_id = 1\<rparr>
   \<and> rdCandidates fs (Some e) s = Inr (filter (rdSurvivor e s) fs)
   \<and> (\<forall>b i. \<not> rdSurvivor e s \<lparr>path = js ''Show - NCOP.mkv'', bytes = b, file_id = i\<rparr>)
   \<and> (e \<noteq> 0 \<and> filter (rdSurvivor e s) (filter isVideo files) \<noteq> [] \<longrightarrow>
      (\<exists>c. resolveRealDebrid_select files fileIndex (Some e) s = Inr c
          \<and> c \<in> set (filter (rdSurvivor e s) (filter isVideo files))
          \<and> (\<forall>c'\<in>set (filter (rdSurvivor e s) (filter isVideo files)). bytes c' \<le> bytes c)
          \<and> \<not> regex_test True nonEpisodePattern (path c)
          \<and> path c \<noteq> js ''Show - NCOP.mkv''))"
proof (intro conjI)
  show "resolveRealDebrid_select scenarioFiles 0 (Some 5) 1
       = Inr \<lparr>path = js ''Show - 05.mkv'', bytes = 419430400, file_id = 1\<rparr>"
    unfolding resolveRealDebrid_select_def scenario_videos Let_def
    by (simp add: scenario_candidates episodeTruthy_def elementAt_def) (simp add: scenarioFiles_def)
  show "rdCandidates fs (Some e) s = Inr (filter (rdSurvivor e s) fs)"
    by (rule rdCandidates_filter)
  show "\<forall>b i. \<not> rdSurvivor e s \<lparr>path = js ''Show - NCOP.mkv'', bytes = b, file_id = i\<rparr>"
    using ncop_denylisted by (simp add: rdSurvivor_def)
  show "e \<noteq> 0 \<and> filter (rdSurvivor e s) (filter isVideo files) \<noteq> [] \<longrightarrow>
      (\<exists>c. resolveRealDebrid_select files fileIndex (Some e) s = Inr c
          \<and> c \<in> set (filter (rdSurvivor e s) (filter isVideo files))
          \<and> (\<forall>c'\<in>set (filter (rdSurvivor e s) (filter isVideo files)). bytes c' \<le> bytes c)
          \<and> \<not> regex_test True nonEpisodePattern (path c)
          \<and> path c \<noteq> js ''Show - NCOP.mkv'')"
  proof (intro impI)
    assume h: "e \<noteq> 0 \<and> filter (rdSurvivor e s) (filter isVideo files) \<noteq> []"
    from select_largest_survivor [of e s files fileIndex] h
    obtain c where c: "resolveRealDebrid_select files fileIndex (Some e) s = Inr c"
        "c \<in> set (filter (rdSurvivor e s) (filter isVideo files))"
        "\<forall>c'\<in>set (filter (rdSurvivor e s) (filter isVideo files)). bytes c' \<le> bytes c"
      by blast
    from c(2) have sv: "rdSurvivor e s c" by simp
    then have d: "\<not> regex_test True nonEpisodePattern (path c)" by (simp add: rdSurvivor_def)
    with ncop_denylisted have "path c \<noteq> js ''Show - NCOP.mkv''" by auto
    with c d show "\<exists>c. resolveRealDebrid_select files fileIndex (Some e) s = Inr c
          \<and> c \<in> set (filter (rdSurvivor e s) (filter isVideo files))
          \<and> (\<forall>c'\<in>set (filter (rdSurvivor e s) (filter isVideo files)). bytes c' \<le> bytes c)
          \<and> \<not> regex_test True nonEpisodePattern (path c)
          \<and> path c \<noteq> js ''Show - NCOP.mkv''"
      by blast
  qed
qed

lemma release_survivors:
  "filter (rdSurvivor 5 1) (filter isVideo releaseFiles)
     = [\<lparr>path = js ''Show - 05 [720p].mkv'', bytes = 419430400, file_id = 1\<rparr>,
        \<lparr>path = js ''Show - 05 [1080p].mkv'', bytes = 734003200, file_id = 3\<rparr>]"
  by (simp add: releaseFiles_def sel_eval rx_eval)

theorem select_largest_survivor_spec_witness:
  "(5::int) \<noteq> 0
   \<and> filter (rdSurvivor 5 1) (filter isVideo releaseFiles) \<noteq> []
   \<and> resolveRealDebrid_select releaseFiles 3 (Some 5) 1
       = Inr \<lparr>path = js ''Show - 05 [1080p].mkv'', bytes = 734003200, file_id = 3\<rparr>"
proof -
  have ne: "(5::int) \<noteq> 0 \<and> filter (rdSurvivor 5 1) (filter isVideo releaseFiles) \<noteq> []"
    unfolding release_survivors by simp
  from select_largest_survivor_spec [of releaseFiles 5 1 releaseFiles 3]
  have imp: "(5::int) \<noteq> 0 \<and> filter (rdSurvivor 5 1) (filter isVideo releaseFiles) \<noteq> [] \<longrightarrow>
      (\<exists>c. resolveRealDebrid_select releaseFiles 3 (Some 5) 1 = Inr c
          \<and> c \<in> set (filter (rdSurvivor 5 1) (filter isVideo releaseFiles))
          \<and> (\<forall>c'\<in>set (filter (rdSurvivor 5 1) (filter isVideo releaseFiles)). bytes c' \<le> bytes c)
          \<and> \<not> regex_test True nonEpisodePattern (path c)
          \<and> path c \<noteq> js ''Show - NCOP.mkv'')"
    by blast
  from imp ne obtain c where c: "resolveRealDebrid_select releaseFiles 3 (Some 5) 1 = Inr c"
      "c \<in> set (filter (rdSurvivor 5 1) (filter isVideo releaseFiles))"
      "\<forall>c'\<in>set (filter (rdSurvivor 5 1) (filter isVideo releaseFiles)). bytes c' \<le> bytes c"
    by blast
  from c(2,3) have "c = \<lparr>path = js ''Show - 05 [1080p].mkv'', bytes = 734003200, file_id = 3\<rparr>"
    unfolding release_survivors by auto
  with c(1) ne show ?thesis by simp
qed

lemma otherRd_videos: "filter isVideo otherEpisodesRd = otherEpisodesRd"
  by (simp add: otherEpisodesRd_def sel_eval rx_eval)

lemma otherRd_survivors: "filter (rdSurvivor 5 1) (filter isVideo otherEpisodesRd) = []"
  unfolding otherRd_videos by (simp add: otherEpisodesRd_def sel_eval rx_eval)

lemma otherAd_survivors: "filter (adSurvivor 5 1) otherEpisodesAd = []"
  by (simp add: otherEpisodesAd_def sel_eval rx_eval)

lemma rd_fallback:
  assumes "filter (rdSurvivor e s) (filter isVideo files) = []"
  shows "resolveRealDebrid_select files fileIndex (Some e) s =
          (case elementAt (filter isVideo files) fileIndex of
             Some f \<Rightarrow> Inr f
           | None \<Rightarrow> (case sort_key (\<lambda>f. - bytes f) (filter isVideo files) of
                        f # _ \<Rightarrow> Inr f
                      | [] \<Rightarrow> Inl NoVideoFiles))"
proof -
  have vf: "filter (\<lambda>f. regex_test True videoExtPattern (path f)) files = filter isVideo files"
    by (simp add: isVideo_def [abs_def])
  show ?thesis
    unfolding resolveRealDebrid_select_def vf Let_def
    by (simp add: rdCandidates_filter assms del: filter_filter)
qed

lemma ad_fallback:
  assumes "filter (adSurvivor e s) videoFiles = []"
  shows "getAllDebridFiles_select videoFiles fileIndex (Some e) s =
          (case elementAt videoFiles fileIndex of
             Some f \<Rightarrow> Inr f
           | None \<Rightarrow> (case sort_key (\<lambda>f. - fsize f) videoFiles of
                        f # _ \<Rightarrow> Inr f
                      | [] \<Rightarrow> Inl NoVideoFiles))"
  unfolding getAllDebridFiles_select_def
  by (simp add: adCandidates_filter assms elementAt_def)

lemma sort_key_hd_largest:
  fixes g :: "'a \<Rightarrow> int"
  assumes "xs \<noteq> []"
  shows "\<exists>f rest. sort_key (\<lambda>x. - g x) xs = f # rest \<and> f \<in> set xs \<and> (\<forall>x\<in>set xs. g x \<le> g f)"
proof -
  from assms obtain f rest where srt: "sort_key (\<lambda>x. - g x) xs = f # rest"
    by (cases "sort_key (\<lambda>x. - g x) xs") (auto simp: sort_key_Nil_iff)
  from sort_key_hd_min [OF srt] show ?thesis using srt by auto
qed

text \<open>
  C1, as stated, fails: with no surviving file for episode 5 both resolvers still return a
  file, here the first one listed (episode 7), which is not even the largest.
\<close>

theorem no_survivor_counterexample:
  "filter (rdSurvivor 5 1) (filter isVideo otherEpisodesRd) = []
   \<and> resolveRealDebrid_select otherEpisodesRd 0 (Some 5) 1
       = Inr \<lparr>path = js ''Show - 07 [720p].mkv'', bytes = 419430400, file_id = 1\<rparr>
   \<and> filter (adSurvivor 5 1) otherEpisodesAd = []
   \<and> getAllDebridFiles_select otherEpisodesAd 0 (Some 5) 1
       = Inr \<lparr>filename = js ''Show - 07 [720p].mkv'', fsize = 419430400, link = js ''l1''\<rparr>"
proof (intro conjI)
  show "filter (rdSurvivor 5 1) (filter isVideo otherEpisodesRd) = []"
    by (rule otherRd_survivors)
  show "resolveRealDebrid_select otherEpisodesRd 0 (Some 5) 1
       = Inr \<lparr>path = js ''Show - 07 [720p].mkv'', bytes = 419430400, file_id = 1\<rparr>"
    unfolding rd_fallback [OF otherRd_survivors] otherRd_videos
    by (simp add: elementAt_def otherEpisodesRd_def)
  show "filter (adSurvivor 5 1) otherEpisodesAd = []"
    by (rule otherAd_survivors)
  show "getAllDebridFiles_select otherEpisodesAd 0 (Some 5) 1
       = Inr \<lparr>filename = js ''Show - 07 [720p].mkv'', fsize = 419430400, link = js ''l1''\<rparr>"
    unfolding ad_fallback [OF otherAd_survivors]
    by (simp add: elementAt_def otherEpisodesAd_def)
qed

text \<open>
  C1, amended.  With no surviving file the resolvers do not answer with a null result: as long
  as the torrent has a video file, one of its video files is selected.  The Real-Debrid
  resolver takes the video file at the requested index (0 unless the caller gives one), and
  both resolvers take a largest video file when the index is out of range.  Only a torrent
  without video files ends in the error \<^verbatim>\<open>No video files found in torrent\<close>.
\<close>

theorem no_survivor_fallback:
  assumes "filter (rdSurvivor e s) (filter isVideo files) = []"
    and "filter (adSurvivor e s) videoFiles = []"
  shows "(filter isVideo files \<noteq> [] \<longrightarrow>
            (\<exists>f\<in>set (filter isVideo files). resolveRealDebrid_select files fileIndex (Some e) s = Inr f))
    \<and> (0 \<le> fileIndex \<and> fileIndex < int (length (filter isVideo files)) \<longrightarrow>
          resolveRealDebrid_select files fileIndex (Some e) s = Inr (filter isVideo files ! nat fileIndex))
    \<and> (\<not> (0 \<le> fileIndex \<and> fileIndex < int (length (filter isVideo files))) \<and> filter isVideo files \<noteq> [] \<longrightarrow>
          (\<exists>f\<in>set (filter isVideo files). resolveRealDebrid_select files fileIndex (Some e) s = Inr f
              \<and> (\<forall>g\<in>set (filter isVideo files). bytes g \<le> bytes f)))
    \<and> (filter isVideo files = [] \<longrightarrow> resolveRealDebrid_select files fileIndex (Some e) s = Inl NoVideoFiles)
    \<and> (videoFiles \<noteq> [] \<longrightarrow>
          (\<exists>f\<in>set videoFiles. getAllDebridFiles_select videoFiles fileIndex (Some e) s = Inr f))
    \<and> (\<not> (0 \<le> fileIndex \<and> fileIndex < int (length videoFiles)) \<and> videoFiles \<noteq> [] \<longrightarrow>
          (\<exists>f\<in>set videoFiles. getAllDebridFiles_select videoFiles fileIndex (Some e) s = Inr f
              \<and> (\<forall>g\<in>set videoFiles. fsize g \<le> fsize f)))
    \<and> (videoFiles = [] \<longrightarrow> getAllDebridFiles_select videoFiles fileIndex (Some e) s = Inl NoVideoFiles)"
proof -
  let ?vf = "filter isVideo files"
  note rd = rd_fallback [OF assms(1), of fileIndex]
  note ad = ad_fallback [OF assms(2), of fileIndex]
  have rd_in: "0 \<le> fileIndex \<and> fileIndex < int (length ?vf) \<longrightarrow>
          resolveRealDebrid_select files fileIndex (Some e) s = Inr (?vf ! nat fileIndex)"
    unfolding rd by (simp add: elementAt_def)
  have rd_out: "\<not> (0 \<le> fileIndex \<and> fileIndex < int (length ?vf)) \<and> ?vf \<noteq> [] \<longrightarrow>
          (\<exists>f\<in>set ?vf. resolveRealDebrid_select files fileIndex (Some e) s = Inr f
              \<and> (\<forall>g\<in>set ?vf. bytes g \<le> bytes f))"
  proof (intro impI, elim conjE)
    assume out: "\<not> (0 \<le> fileIndex \<and> fileIndex < int (length ?vf))" and ne: "?vf \<noteq> []"
    from sort_key_hd_largest [OF ne, of bytes] obtain f rest where
      f: "sort_key (\<lambda>x. - bytes x) ?vf = f # rest" "f \<in> set ?vf" "\<forall>x\<in>set ?vf. bytes x \<le> bytes f"
      by blast
    from out have "elementAt ?vf fileIndex = None" by (simp add: elementAt_def)
    with f(1) have "resolveRealDebrid_select files fileIndex (Some e) s = Inr f"
      unfolding rd by simp
    with f(2,3) show "\<exists>f\<in>set ?vf. resolveRealDebrid_select files fileIndex (Some e) s = Inr f
              \<and> (\<forall>g\<in>set ?vf. bytes g \<le> bytes f)" by blast
  qed
  have rd_any: "?vf \<noteq> [] \<longrightarrow> (\<exists>f\<in>set ?vf. resolveRealDebrid_select files fileIndex (Some e) s = Inr f)"
  proof (cases "0 \<le> fileIndex \<and> fileIndex < int (length ?vf)")
    case True
    then have "?vf ! nat fileIndex \<in> set ?vf" by (intro nth_mem) linarith
    with True rd_in show ?thesis by auto
  next
    case False
    with rd_out show ?thesis by blast
  qed
  have rd_none: "?vf = [] \<longrightarrow> resolveRealDebrid_select files fileIndex (Some e) s = Inl NoVideoFiles"
    unfolding rd by (auto simp: elementAt_def)
  have ad_out: "\<not> (0 \<le> fileIndex \<and> fileIndex < int (length videoFiles)) \<and> videoFiles \<noteq> [] \<longrightarrow>
          (\<exists>f\<in>set videoFiles. getAllDebridFiles_select videoFiles fileIndex (Some e) s = Inr f
              \<and> (\<forall>g\<in>set videoFiles. fsize g \<le> fsize f))"
  proof (intro impI, elim conjE)
    assume out: "\<not> (0 \<le> fileIndex \<and> fileIndex < int (length videoFiles))" and ne: "videoFiles \<noteq> []"
    from sort_key_hd_largest [OF ne, of fsize] obtain f rest where
      f: "sort_key (\<lambda>x. - fsize x) videoFiles = f # rest" "f \<in> set videoFiles"
         "\<forall>x\<in>set videoFiles. fsize x \<le> fsize f"
      by blast
    from out have "elementAt videoFiles fileIndex = None" by (simp add: elementAt_def)
    with f(1) have "getAllDebridFiles_select videoFiles fileIndex (Some e) s = Inr f"
      unfolding ad by simp
    with f(2,3) show "\<exists>f\<in>set videoFiles. getAllDebridFiles_select videoFiles fileIndex (Some e) s = Inr f
              \<and> (\<forall>g\<in>set videoFiles. fsize g \<le> fsize f)" by blast
  qed
  have ad_any: "videoFiles \<noteq> [] \<longrightarrow>
      (\<exists>f\<in>set videoFiles. getAllDebridFiles_select videoFiles fileIndex (Some e) s = Inr f)"
  proof (cases "0 \<le> fileIndex \<and> fileIndex < int (length videoFiles)")
    case True
    then have "videoFiles ! nat fileIndex \<in> set videoFiles" by (intro nth_mem) linarith
    moreover from True have "getAllDebridFiles_select videoFiles fileIndex (Some e) s
        = Inr (videoFiles ! nat fileIndex)"
      unfolding ad by (simp add: elementAt_def)
    ultimately show ?thesis by blast
  next
    case False
    with ad_out show ?thesis by blast
  qed
  have ad_none: "videoFiles = [] \<longrightarrow> getAllDebridFiles_select videoFiles fileIndex (Some e) s = Inl NoVideoFiles"
    unfolding ad by (auto simp: elementAt_def)
  from rd_any rd_in rd_out rd_none ad_any ad_out ad_none show ?thesis
    by (intro conjI)
qed

theorem no_survivor_fallback_witness:
  "filter (rdSurvivor 5 1) (filter isVideo otherEpisodesRd) = []
   \<and> filter (adSurvivor 5 1) otherEpisodesAd = []
   \<and> resolveRealDebrid_select otherEpisodesRd 1 (Some 5) 1
       = Inr \<lparr>path = js ''Show - 06 [1080p].mkv'', bytes = 943718400, file_id = 2\<rparr>
   \<and> (\<exists>f\<in>set otherEpisodesAd. getAllDebridFiles_select otherEpisodesAd 1 (Some 5) 1 = Inr f)"
proof -
  note t = no_survivor_fallback [OF otherRd_survivors otherAd_survivors, of 1]
  have len: "(0::int) \<le> 1 \<and> 1 < int (length (filter isVideo otherEpisodesRd))"
    unfolding otherRd_videos by (simp add: otherEpisodesRd_def)
  from t len have "resolveRealDebrid_select otherEpisodesRd 1 (Some 5) 1
      = Inr (filter isVideo otherEpisodesRd ! nat 1)" by blast
  then have a: "resolveRealDebrid_select otherEpisodesRd 1 (Some 5) 1
       = Inr \<lparr>path = js ''Show - 06 [1080p].mkv'', bytes = 943718400, file_id = 2\<rparr>"
    unfolding otherRd_videos by (simp add: otherEpisodesRd_def)
  have "otherEpisodesAd \<noteq> []" by (simp add: otherEpisodesAd_def)
  with t have b: "\<exists>f\<in>set otherEpisodesAd. getAllDebridFiles_select otherEpisodesAd 1 (Some 5) 1 = Inr f"
    by blast
  from a b otherRd_survivors otherAd_survivors show ?thesis by blast
qed


subsection \<open>Rounding to double precision\<close>

lemma bitlen_bounds: "0 < n \<Longrightarrow> 2 ^ bitlen n \<le> 2 * n \<and> n < 2 ^ bitlen n"
proof (induction n rule: bitlen.induct)
  case (1 n)
  from "1.prems" have b: "bitlen n = Suc (bitlen (n div 2))"
    by (subst bitlen.simps) simp
  show ?case
  proof (cases "n div 2 = 0")
    case True
    with "1.prems" have "n = 1" by linarith
    then show ?thesis by (simp add: b bitlen.simps)
  next
    case False
    with "1.prems" have pos: "0 < n div 2" by linarith
    from "1.prems" have "\<not> n \<le> 0" by simp
    from "1.IH" [OF this pos] have ih: "2 ^ bitlen (n div 2) \<le> 2 * (n div 2)" "n div 2 < 2 ^ bitlen (n div 2)"
      by auto
    have "2 * (n div 2) \<le> n" by presburger
    with ih(1) have a: "2 ^ bitlen n \<le> 2 * n" by (simp add: b)
    from ih(2) have "n div 2 + 1 \<le> 2 ^ bitlen (n div 2)" by linarith
    moreover have "n < 2 * (n div 2 + 1)" by presburger
    ultimately have "n < 2 ^ bitlen n" by (simp add: b)
    with a show ?thesis by simp
  qed
qed

lemma expo_bounds:
  assumes "0 < x"
  shows "2 powi (expo x) \<le> x \<and> x < 2 powi (expo x + 1)"
proof -
  obtain p q where pq: "quotient_of x = (p, q)" by (cases "quotient_of x")
  from quotient_of_denom_pos [OF pq] have q: "0 < q" .
  from quotient_of_div [OF pq] have x: "x = of_int p / of_int q" .
  from assms x q have p: "0 < p" by (simp add: zero_less_divide_iff)
  define k where "k = int (bitlen p) - int (bitlen q)"
  have pw: "(2::rat) powi k = 2 ^ bitlen p / 2 ^ bitlen q"
    unfolding k_def by (subst power_int_diff) simp_all
  from bitlen_bounds [OF p] have p1: "(2::rat) ^ bitlen p \<le> 2 * of_int p" and p2: "(of_int p :: rat) < 2 ^ bitlen p"
    by (metis of_int_le_iff of_int_mult of_int_numeral of_int_power, metis of_int_less_iff of_int_numeral of_int_power)
  from bitlen_bounds [OF q] have q1: "(2::rat) ^ bitlen q \<le> 2 * of_int q" and q2: "(of_int q :: rat) < 2 ^ bitlen q"
    by (metis of_int_le_iff of_int_mult of_int_numeral of_int_power, metis of_int_less_iff of_int_numeral of_int_power)
  have qr: "(0::rat) < of_int q" and pr: "(0::rat) < of_int p" using p q by simp_all
  have bq: "(0::rat) < 2 ^ bitlen q" by simp
  have up: "x < 2 * 2 powi k"
  proof -
    have "x * 2 ^ bitlen q \<le> x * (2 * of_int q)" using q1 assms by (intro mult_left_mono) simp_all
    also have "\<dots> = 2 * of_int p" using qr by (simp add: x)
    also have "\<dots> < 2 * 2 ^ bitlen p" using p2 by simp
    finally have "x * 2 ^ bitlen q < 2 * 2 ^ bitlen p" .
    then have "x < 2 * 2 ^ bitlen p / 2 ^ bitlen q" using bq by (simp add: pos_less_divide_eq)
    then show ?thesis by (simp add: pw)
  qed
  have lo: "2 powi k \<le> 2 * x"
  proof -
    have "(2::rat) ^ bitlen p \<le> 2 * of_int p" by (rule p1)
    also have "2 * of_int p = 2 * x * of_int q" using qr by (simp add: x)
    also have "\<dots> \<le> 2 * x * 2 ^ bitlen q" using q2 assms by (intro mult_left_mono) simp_all
    finally have "(2::rat) ^ bitlen p \<le> 2 * x * 2 ^ bitlen q" .
    then have "(2::rat) ^ bitlen p / 2 ^ bitlen q \<le> 2 * x" using bq by (simp add: pos_divide_le_eq)
    then show ?thesis by (simp add: pw)
  qed
  have e: "expo x = (if 2 powi k \<le> x then k else k - 1)"
    by (simp add: expo_def pq k_def Let_def)
  have s1: "(2::rat) powi (k + 1) = 2 * 2 powi k"
    by (subst power_int_add) simp_all
  have s2: "(2::rat) powi k = 2 * 2 powi (k - 1)"
    using power_int_add [of "2::rat" "k - 1" 1] by simp
  show ?thesis
  proof (cases "2 powi k \<le> x")
    case True
    with e up show ?thesis by (simp add: s1)
  next
    case False
    with e have ek: "expo x = k - 1" by simp
    from lo s2 have "2 powi (k - 1) \<le> x" by simp
    moreover from False have "x < 2 powi k" by simp
    ultimately show ?thesis by (simp add: ek)
  qed
qed

lemma expo_less: "0 < x \<Longrightarrow> x < 2 powi b \<Longrightarrow> expo x < b"
proof (rule ccontr)
  assume x: "0 < x" "x < 2 powi b" and n: "\<not> expo x < b"
  then have "b \<le> expo x" by simp
  then have "(2::rat) powi b \<le> 2 powi (expo x)" by (intro power_int_increasing) simp_all
  with expo_bounds [OF x(1)] x(2) show False by linarith
qed

lemma roundHalfEven_le: "m \<le> of_int N \<Longrightarrow> roundHalfEven m \<le> N"
proof -
  assume a: "m \<le> of_int N"
  then have f: "\<lfloor>m\<rfloor> \<le> N" using floor_mono [of m "of_int N"] by simp
  show ?thesis
  proof (cases "m = of_int \<lfloor>m\<rfloor>")
    case True
    then have "m - of_int \<lfloor>m\<rfloor> = 0" by simp
    then show ?thesis using f by (simp add: roundHalfEven_def Let_def)
  next
    case False
    then have "of_int \<lfloor>m\<rfloor> < m" using of_int_floor_le [of m] by linarith
    with a have "(of_int \<lfloor>m\<rfloor> :: rat) < of_int N" by linarith
    then have "\<lfloor>m\<rfloor> + 1 \<le> N" by simp
    with f show ?thesis by (simp add: roundHalfEven_def Let_def)
  qed
qed

lemma roundHalfEven_nonneg: "0 \<le> m \<Longrightarrow> 0 \<le> roundHalfEven m"
proof -
  assume "0 \<le> m"
  then have "0 \<le> \<lfloor>m\<rfloor>" by simp
  then show ?thesis by (simp add: roundHalfEven_def Let_def)
qed

lemma roundHalfEven_error: "\<bar>of_int (roundHalfEven m) - m\<bar> \<le> 1 / 2"
proof -
  define f where "f = \<lfloor>m\<rfloor>"
  define d where "d = m - of_int f"
  define R where "R = roundHalfEven m"
  have a: "0 \<le> d" and b: "d < 1" unfolding d_def f_def by linarith+
  have r: "R = (if d < 1 / 2 then f else if d > 1 / 2 then f + 1 else if even f then f else f + 1)"
    by (simp add: R_def roundHalfEven_def Let_def f_def d_def)
  have e: "of_int R - m = of_int (R - f) - d" by (simp add: d_def)
  consider "d < 1 / 2" | "d > 1 / 2" | "d = 1 / 2" by linarith
  then have "\<bar>of_int (R - f) - d\<bar> \<le> 1 / 2"
  proof cases
    case 1
    then have "R - f = 0" by (simp add: r)
    then show ?thesis using a 1 by simp
  next
    case 2
    then have "R - f = 1" by (simp add: r)
    then show ?thesis using b 2 by simp
  next
    case 3
    then have "R - f = 0 \<or> R - f = 1" by (simp add: r)
    then show ?thesis using 3 by auto
  qed
  then have "\<bar>of_int R - m\<bar> \<le> 1 / 2" by (simp only: e)
  then show ?thesis by (simp only: R_def)
qed

lemma rd_pos:
  "0 < x \<Longrightarrow> rd x = of_int (roundHalfEven (x / 2 powi (expo x - 52))) * 2 powi (expo x - 52)"
  by (simp add: rd_def Let_def)

lemma rd_nonneg: "0 \<le> x \<Longrightarrow> 0 \<le> rd x"
proof (cases "x = 0")
  case True
  then show ?thesis by (simp add: rd_def)
next
  case False
  assume "0 \<le> x"
  with False have x: "0 < x" by simp
  have "0 \<le> x / 2 powi (expo x - 52)" using x by simp
  then have "0 \<le> roundHalfEven (x / 2 powi (expo x - 52))" by (rule roundHalfEven_nonneg)
  then show ?thesis by (simp add: rd_pos [OF x])
qed

lemma rd_le:
  assumes x: "0 < x" and le: "x \<le> of_int N * 2 powi j" and j: "expo x - 52 \<le> j"
  shows "rd x \<le> of_int N * 2 powi j"
proof -
  define u :: rat where "u = 2 powi (expo x - 52)"
  have u: "0 < u" by (simp add: u_def)
  define d where "d = nat (j - (expo x - 52))"
  have "(2::rat) powi j = 2 powi (int d + (expo x - 52))" using j by (simp add: d_def)
  also have "\<dots> = 2 ^ d * u" unfolding u_def by (subst power_int_add) simp_all
  finally have pj: "(2::rat) powi j = 2 ^ d * u" .
  have c: "of_int N * 2 powi j = of_int (N * 2 ^ d) * u" by (simp add: pj)
  from le have "x / u \<le> of_int (N * 2 ^ d)" using u unfolding c by (simp add: pos_divide_le_eq)
  then have "roundHalfEven (x / u) \<le> N * 2 ^ d" by (rule roundHalfEven_le)
  then have "(of_int (roundHalfEven (x / u)) :: rat) \<le> of_int (N * 2 ^ d)" by (simp only: of_int_le_iff)
  then have "of_int (roundHalfEven (x / u)) * u \<le> of_int (N * 2 ^ d) * u" using u by (intro mult_right_mono) simp_all
  then show ?thesis unfolding c rd_pos [OF x] u_def .
qed

lemma rd_error:
  assumes x: "0 < x"
  shows "\<bar>rd x - x\<bar> \<le> x / 2 ^ 53"
proof -
  define u :: rat where "u = 2 powi (expo x - 52)"
  have u: "0 < u" by (simp add: u_def)
  have "rd x - x = (of_int (roundHalfEven (x / u)) - x / u) * u"
    using u by (simp add: rd_pos [OF x] u_def [symmetric] algebra_simps)
  then have "\<bar>rd x - x\<bar> = \<bar>of_int (roundHalfEven (x / u)) - x / u\<bar> * u"
    using u by (simp add: abs_mult)
  also have "\<dots> \<le> (1 / 2) * u" using roundHalfEven_error [of "x / u"] u by (intro mult_right_mono) simp_all
  also have "\<dots> = 2 powi (expo x) / 2 ^ 53"
  proof -
    have "u = 2 powi (expo x) / 2 powi 52" unfolding u_def by (subst power_int_diff) simp_all
    then show ?thesis by simp
  qed
  also have "\<dots> \<le> x / 2 ^ 53" using expo_bounds [OF x] by (simp add: divide_right_mono)
  finally show ?thesis .
qed

lemma rd_values: "rd 1 = 1" "rd 100 = 100" "rd 0 = 0"
  by code_simp+

subsection \<open>Fuzzy matcher\<close>

lemma upd_shape:
  "dpShape m n dp \<Longrightarrow> dpShape m n (dp[i := (dp ! i)[j := v]])"
  by (cases "i < length dp") (auto simp: dpShape_def nth_list_update)

lemma upd_cell:
  "dpShape m n dp \<Longrightarrow> i \<le> m \<Longrightarrow> j \<le> n \<Longrightarrow> r \<le> m \<Longrightarrow> c \<le> n \<Longrightarrow>
     dp[i := (dp ! i)[j := v]] ! r ! c = (if r = i \<and> c = j then v else dp ! r ! c)"
  by (auto simp: dpShape_def nth_list_update)

lemma initCol:
  assumes sh: "dpShape m n dp0"
  shows "k \<le> Suc m \<Longrightarrow>
   dpShape m n (fold (\<lambda>i dp. dp[i := (dp ! i)[0 := i]]) [0..<k] dp0)
   \<and> (\<forall>r\<le>m. \<forall>c\<le>n. fold (\<lambda>i dp. dp[i := (dp ! i)[0 := i]]) [0..<k] dp0 ! r ! c
                        = (if r < k \<and> c = 0 then r else dp0 ! r ! c))"
proof (induction k)
  case 0
  show ?case using sh by auto
next
  case (Suc k)
  let ?dp = "fold (\<lambda>i dp. dp[i := (dp ! i)[0 := i]]) [0..<k] dp0"
  from Suc have sh': "dpShape m n ?dp"
    and v: "\<forall>r\<le>m. \<forall>c\<le>n. ?dp ! r ! c = (if r < k \<and> c = 0 then r else dp0 ! r ! c)" by auto
  from Suc.prems have km: "k \<le> m" by simp
  have "dpShape m n (?dp[k := (?dp ! k)[0 := k]])" using sh' by (rule upd_shape)
  moreover have "\<forall>r\<le>m. \<forall>c\<le>n. ?dp[k := (?dp ! k)[0 := k]] ! r ! c = (if r < Suc k \<and> c = 0 then r else dp0 ! r ! c)"
    using v km by (auto simp: upd_cell [OF sh' km])
  ultimately show ?case by simp
qed

lemma zeros_shape: "dpShape m n (replicate (Suc m) (replicate (Suc n) 0))"
  by (auto simp: dpShape_def simp del: replicate_Suc)

lemma zeros_cell: "r \<le> m \<Longrightarrow> c \<le> n \<Longrightarrow> replicate (Suc m) (replicate (Suc n) (0::nat)) ! r ! c = 0"
  by (auto simp del: replicate_Suc)

lemma initRow:
  assumes sh: "dpShape m n dp0"
  shows "k \<le> Suc n \<Longrightarrow>
   dpShape m n (fold (\<lambda>j dp. dp[0 := (dp ! 0)[j := j]]) [0..<k] dp0)
   \<and> (\<forall>r\<le>m. \<forall>c\<le>n. fold (\<lambda>j dp. dp[0 := (dp ! 0)[j := j]]) [0..<k] dp0 ! r ! c
                        = (if r = 0 \<and> c < k then c else dp0 ! r ! c))"
proof (induction k)
  case 0
  show ?case using sh by auto
next
  case (Suc k)
  let ?dp = "fold (\<lambda>j dp. dp[0 := (dp ! 0)[j := j]]) [0..<k] dp0"
  from Suc have sh': "dpShape m n ?dp"
    and v: "\<forall>r\<le>m. \<forall>c\<le>n. ?dp ! r ! c = (if r = 0 \<and> c < k then c else dp0 ! r ! c)" by auto
  from Suc.prems have kn: "k \<le> n" by simp
  have "dpShape m n (?dp[0 := (?dp ! 0)[k := k]])" using sh' by (rule upd_shape)
  moreover have "\<forall>r\<le>m. \<forall>c\<le>n. ?dp[0 := (?dp ! 0)[k := k]] ! r ! c = (if r = 0 \<and> c < Suc k then c else dp0 ! r ! c)"
    using v kn by (auto simp: upd_cell [OF sh' _ kn])
  ultimately show ?case by simp
qed

lemma lev_ij_0_right: "lev_ij a b i 0 = i"
  by (cases i) simp_all

lemma dpInv_init:
  "dpInv a b m n 1 1
     (fold (\<lambda>j dp. dp[0 := (dp ! 0)[j := j]]) [0..<Suc n]
        (fold (\<lambda>i dp. dp[i := (dp ! i)[0 := i]]) [0..<Suc m] (replicate (Suc m) (replicate (Suc n) 0))))"
proof -
  let ?dp1 = "fold (\<lambda>i dp. dp[i := (dp ! i)[0 := i]]) [0..<Suc m] (replicate (Suc m) (replicate (Suc n) 0))"
  from initCol [OF zeros_shape, of "Suc m" m n] have sh1: "dpShape m n ?dp1"
    and v1: "\<forall>r\<le>m. \<forall>c\<le>n. ?dp1 ! r ! c = (if r < Suc m \<and> c = 0 then r else 0)"
    by (auto simp: zeros_cell simp del: replicate_Suc upt_Suc)
  from initRow [OF sh1, of "Suc n"] have sh2: "dpShape m n (fold (\<lambda>j dp. dp[0 := (dp ! 0)[j := j]]) [0..<Suc n] ?dp1)"
    and v2: "\<forall>r\<le>m. \<forall>c\<le>n. fold (\<lambda>j dp. dp[0 := (dp ! 0)[j := j]]) [0..<Suc n] ?dp1 ! r ! c
                = (if r = 0 \<and> c < Suc n then c else ?dp1 ! r ! c)" by auto
  show ?thesis
    unfolding dpInv_def using sh2 v2 v1 by (auto simp: lev_ij_0_right simp del: replicate_Suc upt_Suc)
qed

lemma dpCell_step:
  assumes inv: "dpInv a b m n i j dp" and i: "1 \<le> i" "i \<le> m" and j: "1 \<le> j" "j \<le> n"
  shows "dpInv a b m n i (Suc j) (dpCell a b i j dp)"
proof -
  from inv have sh: "dpShape m n dp"
    and v: "\<And>r c. r \<le> m \<Longrightarrow> c \<le> n \<Longrightarrow> r = 0 \<or> c = 0 \<or> r < i \<or> (r = i \<and> c < j) \<Longrightarrow> dp ! r ! c = lev_ij a b r c"
    by (auto simp: dpInv_def)
  from i j obtain i' j' where ij: "i = Suc i'" "j = Suc j'" by (cases i; cases j) auto
  have a1: "dp ! (i - 1) ! j = lev_ij a b i' j" using v [of i' j] i j ij by simp
  have a2: "dp ! i ! (j - 1) = lev_ij a b i j'" using v [of i j'] i j ij by simp
  have a3: "dp ! (i - 1) ! (j - 1) = lev_ij a b i' j'" using v [of i' j'] i j ij by simp
  have new: "min (dp ! (i - 1) ! j + 1)
                 (min (dp ! i ! (j - 1) + 1) (dp ! (i - 1) ! (j - 1) + (if a ! (i - 1) = b ! (j - 1) then 0 else 1)))
             = lev_ij a b i j"
    unfolding a1 a2 a3 by (simp add: ij)
  have cellv: "\<And>r c. r \<le> m \<Longrightarrow> c \<le> n \<Longrightarrow>
      dpCell a b i j dp ! r ! c = (if r = i \<and> c = j then lev_ij a b i j else dp ! r ! c)"
    unfolding dpCell_def Let_def new by (rule upd_cell [OF sh i(2) j(2)])
  have "dpShape m n (dpCell a b i j dp)"
    unfolding dpCell_def Let_def using sh by (rule upd_shape)
  moreover have "\<forall>r\<le>m. \<forall>c\<le>n. (r = 0 \<or> c = 0 \<or> r < i \<or> (r = i \<and> c < Suc j))
        \<longrightarrow> dpCell a b i j dp ! r ! c = lev_ij a b r c"
    using v by (auto simp: cellv less_Suc_eq)
  ultimately show ?thesis by (simp add: dpInv_def)
qed

lemma inner_loop:
  assumes i: "1 \<le> i" "i \<le> m"
  shows "dpInv a b m n i 1 dp \<Longrightarrow> k \<le> n \<Longrightarrow>
         dpInv a b m n i (Suc k) (fold (\<lambda>j dp. dpCell a b i j dp) [1..<Suc k] dp)"
proof (induction k)
  case 0
  then show ?case by simp
next
  case (Suc k)
  then have "dpInv a b m n i (Suc k) (fold (\<lambda>j dp. dpCell a b i j dp) [1..<Suc k] dp)" by simp
  from dpCell_step [OF this i, of ] Suc.prems
  have "dpInv a b m n i (Suc (Suc k)) (dpCell a b i (Suc k) (fold (\<lambda>j dp. dpCell a b i j dp) [1..<Suc k] dp))"
    by simp
  then show ?case by simp
qed

lemma next_row:
  assumes "dpInv a b m n i (Suc n) dp"
  shows "dpInv a b m n (Suc i) 1 dp"
proof -
  from assms have sh: "dpShape m n dp"
    and v: "\<And>r c. r \<le> m \<Longrightarrow> c \<le> n \<Longrightarrow> r = 0 \<or> c = 0 \<or> r < i \<or> (r = i \<and> c < Suc n)
              \<Longrightarrow> dp ! r ! c = lev_ij a b r c"
    by (auto simp: dpInv_def)
  have "dp ! r ! c = lev_ij a b r c"
    if "r \<le> m" "c \<le> n" "r = 0 \<or> c = 0 \<or> r < Suc i \<or> (r = Suc i \<and> c < 1)" for r c
  proof -
    from that have "r = 0 \<or> c = 0 \<or> r < i \<or> (r = i \<and> c < Suc n)" by linarith
    with that(1,2) show ?thesis by (rule v)
  qed
  with sh show ?thesis by (simp add: dpInv_def)
qed

lemma outer_loop:
  "dpInv a b m n 1 1 dp \<Longrightarrow> k \<le> m \<Longrightarrow>
   dpInv a b m n (Suc k) 1 (fold (\<lambda>i dp. fold (\<lambda>j dp. dpCell a b i j dp) [1..<Suc n] dp) [1..<Suc k] dp)"
proof (induction k)
  case 0
  then show ?case by simp
next
  case (Suc k)
  let ?dp = "fold (\<lambda>i dp. fold (\<lambda>j dp. dpCell a b i j dp) [1..<Suc n] dp) [1..<Suc k] dp"
  from Suc have "dpInv a b m n (Suc k) 1 ?dp" by simp
  from inner_loop [OF _ _ this, of n] Suc.prems
  have "dpInv a b m n (Suc k) (Suc n) (fold (\<lambda>j dp. dpCell a b (Suc k) j dp) [1..<Suc n] ?dp)" by simp
  then have "dpInv a b m n (Suc (Suc k)) 1 (fold (\<lambda>j dp. dpCell a b (Suc k) j dp) [1..<Suc n] ?dp)"
    by (rule next_row)
  then show ?case by simp
qed

lemma levenshteinDistance_lev_ij:
  "levenshteinDistance a b = lev_ij a b (length a) (length b)"
proof (cases "length a = 0 \<or> length b = 0")
  case True
  then show ?thesis by (auto simp: levenshteinDistance_def Let_def lev_ij_0_right)
next
  case False
  define m n where "m = length a" and "n = length b"
  from outer_loop [OF dpInv_init, of m m a b n]
  have "dpInv a b m n (Suc m) 1
     (fold (\<lambda>i dp. fold (\<lambda>j dp. dpCell a b i j dp) [1..<Suc n] dp) [1..<Suc m]
       (fold (\<lambda>j dp. dp[0 := (dp ! 0)[j := j]]) [0..<Suc n]
        (fold (\<lambda>i dp. dp[i := (dp ! i)[0 := i]]) [0..<Suc m] (replicate (Suc m) (replicate (Suc n) 0)))))"
    by simp
  then have "(fold (\<lambda>i dp. fold (\<lambda>j dp. dpCell a b i j dp) [1..<Suc n] dp) [1..<Suc m]
       (fold (\<lambda>j dp. dp[0 := (dp ! 0)[j := j]]) [0..<Suc n]
        (fold (\<lambda>i dp. dp[i := (dp ! i)[0 := i]]) [0..<Suc m] (replicate (Suc m) (replicate (Suc n) 0))))) ! m ! n
      = lev_ij a b m n"
    by (simp add: dpInv_def)
  with False show ?thesis
    by (simp add: levenshteinDistance_def Let_def m_def n_def del: upt_Suc replicate_Suc)
qed

lemma lev_ij_sym: "lev_ij a b i j = lev_ij b a j i"
proof (induction a b i j rule: lev_ij.induct)
  case (1 a b j)
  show ?case by (simp add: lev_ij_0_right)
next
  case (2 a b i)
  show ?case by simp
next
  case (3 a b i j)
  then show ?case by (simp add: min.commute min.left_commute eq_commute)
qed

lemma lev_ij_refl: "lev_ij a a i i = 0"
  by (induction i) simp_all

lemma lev_ij_le_max: "lev_ij a b i j \<le> max i j"
proof (induction a b i j rule: lev_ij.induct)
  case (3 a b i j)
  have "lev_ij a b (Suc i) (Suc j) \<le> lev_ij a b i j + (if a ! i = b ! j then 0 else 1)"
    by simp
  also have "\<dots> \<le> lev_ij a b i j + 1" by simp
  also have "\<dots> \<le> max i j + 1" using 3 by simp
  finally show ?case by simp
qed simp_all

lemma levenshteinDistance_le_max: "levenshteinDistance a b \<le> max (length a) (length b)"
  by (simp only: levenshteinDistance_lev_ij lev_ij_le_max)

lemma levenshteinDistance_refl: "levenshteinDistance s s = 0"
  by (simp only: levenshteinDistance_lev_ij lev_ij_refl)

lemma levenshteinDistance_sym: "levenshteinDistance a b = levenshteinDistance b a"
  by (simp only: levenshteinDistance_lev_ij lev_ij_sym [of a b])

lemma stringSimilarity_refl: "stringSimilarity s s = 100"
proof (cases "length s = 0")
  case True
  then show ?thesis by (simp add: stringSimilarity_def)
next
  case False
  then have "(of_int (int (length s)) :: rat) / of_int (int (length s)) = 1" by simp
  with False show ?thesis
    by (simp add: stringSimilarity_def Let_def levenshteinDistance_refl ddiv_def dmul_def rd_values)
qed

lemma stringSimilarity_sym: "stringSimilarity a b = stringSimilarity b a"
  by (simp add: stringSimilarity_def Let_def levenshteinDistance_sym [of a b] max.commute)

lemma rd_unit:
  assumes "0 \<le> q" "q \<le> 1"
  shows "0 \<le> rd q \<and> rd q \<le> 1"
proof (cases "q = 0")
  case True
  then show ?thesis by (simp add: rd_values)
next
  case False
  with assms have q: "0 < q" by simp
  from assms(2) have "q < 2 powi 1" by simp
  from expo_less [OF q this] have e: "expo q - 52 \<le> 0" by simp
  from assms(2) have "q \<le> of_int 1 * 2 powi 0" by simp
  from rd_le [OF q this e] have "rd q \<le> 1" by simp
  with rd_nonneg [of q] q show ?thesis by simp
qed

lemma rd_hundred:
  assumes "0 \<le> p" "p \<le> 100"
  shows "0 \<le> rd p \<and> rd p \<le> 100"
proof (cases "p = 0")
  case True
  then show ?thesis by (simp add: rd_values)
next
  case False
  with assms have p: "0 < p" by simp
  from assms(2) have "p < 2 powi 7" by simp
  from expo_less [OF p this] have e: "expo p - 52 \<le> 2" by simp
  from assms(2) have "p \<le> of_int 25 * 2 powi 2" by simp
  from rd_le [OF p this e] have "rd p \<le> 100" by simp
  with rd_nonneg [of p] p show ?thesis by simp
qed

lemma stringSimilarity_unfold:
  assumes "max (length a) (length b) \<noteq> 0"
  shows "stringSimilarity a b
     = rd (rd (1 - of_nat (levenshteinDistance a b) / of_nat (max (length a) (length b))) * 100)"
proof -
  define M d where "M = max (length a) (length b)" and "d = levenshteinDistance a b"
  from assms have M0: "M \<noteq> 0" unfolding M_def .
  then have Mr: "(of_nat M :: rat) \<noteq> 0" by simp
  have "(of_int (int M - int d) :: rat) / of_int (int M) = 1 - of_nat d / of_nat M"
    using Mr by (simp add: field_simps)
  then show ?thesis
    using M0 unfolding stringSimilarity_def Let_def M_def [symmetric] d_def [symmetric] ddiv_def dmul_def
    by simp
qed

lemma quotient_unit:
  "max (length a) (length b) \<noteq> 0 \<Longrightarrow>
     0 \<le> 1 - (of_nat (levenshteinDistance a b) :: rat) / of_nat (max (length a) (length b))
     \<and> 1 - (of_nat (levenshteinDistance a b) :: rat) / of_nat (max (length a) (length b)) \<le> 1"
proof -
  assume m: "max (length a) (length b) \<noteq> 0"
  define M d where "M = max (length a) (length b)" and "d = levenshteinDistance a b"
  have dM: "d \<le> M" unfolding M_def d_def by (rule levenshteinDistance_le_max)
  from m have Mpos: "(0::rat) < of_nat M" unfolding M_def by linarith
  have "(of_nat d :: rat) \<le> of_nat M" using dM by simp
  then have "(of_nat d :: rat) / of_nat M \<le> 1" using Mpos by (simp add: divide_le_eq)
  moreover have "0 \<le> (of_nat d :: rat) / of_nat M" by simp
  ultimately show ?thesis unfolding M_def d_def by linarith
qed

lemma stringSimilarity_bounds: "0 \<le> stringSimilarity a b \<and> stringSimilarity a b \<le> 100"
proof (cases "max (length a) (length b) = 0")
  case True
  then show ?thesis by (simp add: stringSimilarity_def)
next
  case False
  define q :: rat where "q = 1 - of_nat (levenshteinDistance a b) / of_nat (max (length a) (length b))"
  from quotient_unit [OF False] have "0 \<le> q" "q \<le> 1" by (simp_all add: q_def)
  from rd_unit [OF this] have "0 \<le> rd q * 100" "rd q * 100 \<le> 100" by simp_all
  from rd_hundred [OF this] show ?thesis
    unfolding stringSimilarity_unfold [OF False] q_def .
qed

lemma stringSimilarity_error:
  assumes "max (length a) (length b) \<noteq> 0"
  shows "\<bar>stringSimilarity a b
          - 100 * (1 - of_nat (levenshteinDistance a b) / of_nat (max (length a) (length b)))\<bar>
         \<le> 100 / 2 ^ 52"
proof -
  define q :: rat where "q = 1 - of_nat (levenshteinDistance a b) / of_nat (max (length a) (length b))"
  from quotient_unit [OF assms] have q: "0 \<le> q" "q \<le> 1" by (simp_all add: q_def)
  have s: "stringSimilarity a b = rd (rd q * 100)"
    unfolding stringSimilarity_unfold [OF assms] q_def ..
  show ?thesis
  proof (cases "q = 0")
    case True
    then show ?thesis unfolding s q_def [symmetric] by (simp add: rd_values)
  next
    case False
    with q have qpos: "0 < q" by simp
    have "q / 2 ^ 53 \<le> 1 / 2 ^ 53" using q(2) by (simp add: divide_right_mono)
    with rd_error [OF qpos] have e1: "\<bar>rd q - q\<bar> \<le> 1 / 2 ^ 53" by linarith
    from rd_unit [OF q] have u: "0 \<le> rd q" "rd q \<le> 1" by simp_all
    have e2: "\<bar>rd (rd q * 100) - rd q * 100\<bar> \<le> 100 / 2 ^ 53"
    proof (cases "rd q = 0")
      case True
      then show ?thesis by (simp add: rd_values)
    next
      case False
      with u have "0 < rd q * 100" by simp
      from rd_error [OF this] have "\<bar>rd (rd q * 100) - rd q * 100\<bar> \<le> rd q * 100 / 2 ^ 53" .
      also have "\<dots> \<le> 100 / 2 ^ 53" using u(2) by (simp add: divide_right_mono)
      finally show ?thesis .
    qed
    have "rd (rd q * 100) - 100 * q = (rd (rd q * 100) - rd q * 100) + 100 * (rd q - q)"
      by simp
    then have "\<bar>rd (rd q * 100) - 100 * q\<bar> \<le> \<bar>rd (rd q * 100) - rd q * 100\<bar> + \<bar>100 * (rd q - q)\<bar>"
      by (simp only: abs_triangle_ineq)
    also have "\<bar>100 * (rd q - q)\<bar> = 100 * \<bar>rd q - q\<bar>"
      by (simp only: abs_mult abs_numeral)
    finally have "\<bar>rd (rd q * 100) - 100 * q\<bar> \<le> \<bar>rd (rd q * 100) - rd q * 100\<bar> + 100 * \<bar>rd q - q\<bar>" .
    also have "\<dots> \<le> 100 / 2 ^ 53 + 100 * (1 / 2 ^ 53)" using e1 e2 by (intro add_mono mult_left_mono) simp_all
    also have "\<dots> = 100 / 2 ^ 52" by simp
    finally show ?thesis unfolding s q_def [symmetric] .
  qed
qed

lemma abc_abd: "levenshteinDistance ''abc'' ''abd'' = 1"
  by code_simp

lemma abc_abd_similarity: "stringSimilarity ''abc'' ''abd'' = 2345624805922133 / 35184372088832"
  by code_simp

text \<open>
  C6, as stated, fails in its last part: the similarity is not always
  \<open>100 * (1 - distance / max (len a) (len b))\<close>.  For \<^verbatim>\<open>abc\<close> and \<^verbatim>\<open>abd\<close> the distance is 1
  and the code computes \<^verbatim>\<open>((3 - 1) / 3) * 100\<close> in double precision, which is
  \<open>2345624805922133 / 2 ^ 45\<close> (printed 66.66666666666666): neither two hundred thirds, nor
  the double that the formula of the claim gives when it is evaluated in double precision
  (printed 66.66666666666667).
\<close>

theorem stringSimilarity_formula_counterexample:
  "stringSimilarity ''abc'' ''abd'' = 2345624805922133 / 35184372088832
   \<and> stringSimilarity ''abc'' ''abd''
       \<noteq> 100 * (1 - of_nat (levenshteinDistance ''abc'' ''abd'') / of_nat (max (length ''abc'') (length ''abd'')))
   \<and> stringSimilarity ''abc'' ''abd''
       \<noteq> dmul 100 (rd (1 - ddiv (of_nat (levenshteinDistance ''abc'' ''abd''))
                                  (of_nat (max (length ''abc'') (length ''abd'')))))"
proof -
  have f: "dmul 100 (rd (1 - ddiv 1 3)) = 4691249611844267 / 70368744177664"
    by code_simp
  show ?thesis
    by (simp add: abc_abd abc_abd_similarity f)
qed

text \<open>
  C6, amended.  The similarity of a string with itself is 100, the empty string included;
  every similarity lies between 0 and 100; similarity is symmetric; and, when one of the
  strings is not empty, the similarity is \<open>100 * (1 - distance / max (len a) (len b))\<close> up to
  the rounding of the two double-precision operations, an error of at most \<open>100 / 2 ^ 52\<close>.
\<close>

theorem stringSimilarity_properties:
  "stringSimilarity s s = 100
   \<and> stringSimilarity ([] :: 'a list) [] = 100
   \<and> 0 \<le> stringSimilarity a b \<and> stringSimilarity a b \<le> 100
   \<and> stringSimilarity a b = stringSimilarity b a
   \<and> (max (length a) (length b) \<noteq> 0 \<longrightarrow>
        \<bar>stringSimilarity a b
          - 100 * (1 - of_nat (levenshteinDistance a b) / of_nat (max (length a) (length b)))\<bar>
        \<le> 100 / 2 ^ 52)"
  using stringSimilarity_refl [of s] stringSimilarity_refl [of "[] :: 'a list"]
    stringSimilarity_bounds [of a b] stringSimilarity_sym [of a b] stringSimilarity_error [of a b]
  by blast

theorem stringSimilarity_properties_witness:
  "max (length ''abc'') (length ''abd'') \<noteq> 0
   \<and> \<bar>stringSimilarity ''abc'' ''abd'' - 200 / 3\<bar> \<le> 100 / 2 ^ 52
   \<and> stringSimilarity ''abc'' ''abd'' = stringSimilarity ''abd'' ''abc''
   \<and> stringSimilarity ''abc'' ''abc'' = 100"
proof -
  note t = stringSimilarity_properties [of "''abc''" "''abc''" "''abd''", where 'a = char]
  have m: "max (length ''abc'') (length ''abd'') \<noteq> 0" by simp
  from t m have "\<bar>stringSimilarity ''abc'' ''abd''
      - 100 * (1 - of_nat (levenshteinDistance ''abc'' ''abd'') / of_nat (max (length ''abc'') (length ''abd'')))\<bar>
      \<le> 100 / 2 ^ 52"
    by blast
  then have a: "\<bar>stringSimilarity ''abc'' ''abd'' - 200 / 3\<bar> \<le> 100 / 2 ^ 52" by (simp add: abc_abd)
  from t have b: "stringSimilarity ''abc'' ''abd'' = stringSimilarity ''abd'' ''abc''" by blast
  from t have c: "stringSimilarity ''abc'' ''abc'' = 100" by blast
  from m a b c show ?thesis by blast
qed

subsection \<open>Search tier of the show-identity resolver\<close>

lemma bestMatchLoop_spec:
  "bestMatchLoop lower nst results (bm, bs) = (bm', bs') \<Longrightarrow>
     bs \<le> bs' \<and> (\<forall>r\<in>set results. showScore lower nst r \<le> bs')
     \<and> ((bm' = bm \<and> bs' = bs) \<or> (\<exists>b\<in>set results. bm' = Some b \<and> showScore lower nst b = bs'))"
proof (induction results arbitrary: bm bs)
  case Nil
  then show ?case by simp
next
  case (Cons cand results)
  show ?case
  proof (cases "showScore lower nst cand > bs")
    case True
    with Cons.prems have "bestMatchLoop lower nst results (Some cand, showScore lower nst cand) = (bm', bs')"
      by (simp add: Let_def)
    from Cons.IH [OF this] True show ?thesis by auto
  next
    case False
    with Cons.prems have "bestMatchLoop lower nst results (bm, bs) = (bm', bs')"
      by (simp add: Let_def)
    from Cons.IH [OF this] False show ?thesis by auto
  qed
qed

lemma find_idMatches:
  "\<exists>r\<in>set results. P r \<Longrightarrow> \<exists>r\<in>set results. P r \<and> find P results = Some r"
  by (induction results) auto

lemma find_none: "\<not> (\<exists>r\<in>set results. P r) \<Longrightarrow> find P results = None"
  by (induction results) auto

lemma idMatches_truthy: "idMatches malId aniListId r \<Longrightarrow> idTruthy malId \<or> idTruthy aniListId"
  by (auto simp: idMatches_def)

lemma search_id_match:
  assumes "\<exists>r\<in>set results. idMatches malId aniListId r"
  shows "\<exists>r\<in>set results. idMatches malId aniListId r
           \<and> findAllAnimeShow_search lower searchTitle malId aniListId results = Some (sc_id r)"
proof -
  from find_idMatches [OF assms] obtain r where r: "r \<in> set results" "idMatches malId aniListId r"
    "find (idMatches malId aniListId) results = Some r" by blast
  from r(1) have ne: "results \<noteq> []" by auto
  from r(2) have "idTruthy malId \<or> idTruthy aniListId" by (rule idMatches_truthy)
  with r(3) ne have "findAllAnimeShow_search lower searchTitle malId aniListId results = Some (sc_id r)"
    by (simp add: findAllAnimeShow_search_def)
  with r(1,2) show ?thesis by blast
qed

lemma search_fuzzy:
  assumes nomatch: "\<not> (\<exists>r\<in>set results. idMatches malId aniListId r)"
    and th: "th = (if idTruthy malId \<or> idTruthy aniListId then 75 else 60)"
  shows "((\<exists>r\<in>set results. th \<le> showScore lower (stripNonAlnum (lower searchTitle)) r) \<longrightarrow>
            (\<exists>b\<in>set results. findAllAnimeShow_search lower searchTitle malId aniListId results = Some (sc_id b)
                \<and> th \<le> showScore lower (stripNonAlnum (lower searchTitle)) b
                \<and> (\<forall>r\<in>set results. showScore lower (stripNonAlnum (lower searchTitle)) r
                                      \<le> showScore lower (stripNonAlnum (lower searchTitle)) b)))
       \<and> ((\<forall>r\<in>set results. showScore lower (stripNonAlnum (lower searchTitle)) r < th) \<longrightarrow>
            findAllAnimeShow_search lower searchTitle malId aniListId results = None)"
proof -
  let ?nst = "stripNonAlnum (lower searchTitle)"
  obtain bm bs where loop: "bestMatchLoop lower ?nst results (None, 0) = (bm, bs)"
    by (cases "bestMatchLoop lower ?nst results (None, 0)") auto
  from bestMatchLoop_spec [OF loop] have bs0: "0 \<le> bs"
    and ub: "\<forall>r\<in>set results. showScore lower ?nst r \<le> bs"
    and pick: "(bm = None \<and> bs = 0) \<or> (\<exists>b\<in>set results. bm = Some b \<and> showScore lower ?nst b = bs)"
    by auto
  have thpos: "0 < th" using th by simp
  have idn: "(if idTruthy malId \<or> idTruthy aniListId then find (idMatches malId aniListId) results else None) = None"
    using find_none [OF nomatch] by simp
  have res: "findAllAnimeShow_search lower searchTitle malId aniListId results =
       (if results = [] then None
        else case bm of Some b \<Rightarrow> if bs \<ge> th then Some (sc_id b) else None | None \<Rightarrow> None)"
    unfolding findAllAnimeShow_search_def idn using loop th by (auto simp: Let_def)
  have A: "\<exists>b\<in>set results. findAllAnimeShow_search lower searchTitle malId aniListId results = Some (sc_id b)
                \<and> th \<le> showScore lower ?nst b
                \<and> (\<forall>r\<in>set results. showScore lower ?nst r \<le> showScore lower ?nst b)"
    if ex: "\<exists>r\<in>set results. th \<le> showScore lower ?nst r"
  proof -
    from ex obtain r where r: "r \<in> set results" "th \<le> showScore lower ?nst r" by blast
    with ub have thbs: "th \<le> bs" by fastforce
    with thpos have "bs \<noteq> 0" by simp
    with pick obtain b where b: "b \<in> set results" "bm = Some b" "showScore lower ?nst b = bs" by blast
    from r(1) have "results \<noteq> []" by auto
    with res b(2) thbs have "findAllAnimeShow_search lower searchTitle malId aniListId results = Some (sc_id b)"
      by simp
    with b ub thbs show ?thesis by auto
  qed
  have B: "findAllAnimeShow_search lower searchTitle malId aniListId results = None"
    if all: "\<forall>r\<in>set results. showScore lower ?nst r < th"
  proof -
    from pick all thpos have "bm = None \<or> bs < th" by auto
    with res show ?thesis by (auto split: option.splits)
  qed
  from A B show ?thesis by blast
qed

text \<open>
  C5. In the search tier a candidate whose MAL or AniList id equals a supplied id is taken
  at once, whatever its title score.  Otherwise the threshold is 60 when no id was supplied
  and 75 when one was (and, here, matched no candidate): if some candidate reaches the
  threshold, a candidate of highest score is returned, and if none does the answer is
  \<^verbatim>\<open>null\<close>.  The scores are the double-precision values that the code computes.
\<close>

theorem findAllAnimeShow_search_spec:
  "((\<exists>r\<in>set results. idMatches malId aniListId r) \<longrightarrow>
      (\<exists>r\<in>set results. idMatches malId aniListId r
          \<and> findAllAnimeShow_search lower searchTitle malId aniListId results = Some (sc_id r)))
   \<and> (\<not> (\<exists>r\<in>set results. idMatches malId aniListId r) \<longrightarrow>
        ((\<exists>r\<in>set results. (if idTruthy malId \<or> idTruthy aniListId then 75 else 60)
                               \<le> showScore lower (stripNonAlnum (lower searchTitle)) r) \<longrightarrow>
           (\<exists>b\<in>set results.
               findAllAnimeShow_search lower searchTitle malId aniListId results = Some (sc_id b)
               \<and> (if idTruthy malId \<or> idTruthy aniListId then 75 else 60)
                   \<le> showScore lower (stripNonAlnum (lower searchTitle)) b
               \<and> (\<forall>r\<in>set results. showScore lower (stripNonAlnum (lower searchTitle)) r
                                     \<le> showScore lower (stripNonAlnum (lower searchTitle)) b)))
        \<and> ((\<forall>r\<in>set results. showScore lower (stripNonAlnum (lower searchTitle)) r
                               < (if idTruthy malId \<or> idTruthy aniListId then 75 else 60)) \<longrightarrow>
             findAllAnimeShow_search lower searchTitle malId aniListId results = None))"
proof (intro conjI impI)
  assume "\<exists>r\<in>set results. idMatches malId aniListId r"
  then show "\<exists>r\<in>set results. idMatches malId aniListId r
          \<and> findAllAnimeShow_search lower searchTitle malId aniListId results = Some (sc_id r)"
    by (rule search_id_match)
next
  assume n: "\<not> (\<exists>r\<in>set results. idMatches malId aniListId r)"
    and e: "\<exists>r\<in>set results. (if idTruthy malId \<or> idTruthy aniListId then 75 else 60)
                               \<le> showScore lower (stripNonAlnum (lower searchTitle)) r"
  from search_fuzzy [OF n refl, of lower searchTitle] e
  show "\<exists>b\<in>set results.
               findAllAnimeShow_search lower searchTitle malId aniListId results = Some (sc_id b)
               \<and> (if idTruthy malId \<or> idTruthy aniListId then 75 else 60)
                   \<le> showScore lower (stripNonAlnum (lower searchTitle)) b
               \<and> (\<forall>r\<in>set results. showScore lower (stripNonAlnum (lower searchTitle)) r
                                     \<le> showScore lower (stripNonAlnum (lower searchTitle)) b)"
    by blast
next
  assume n: "\<not> (\<exists>r\<in>set results. idMatches malId aniListId r)"
    and a: "\<forall>r\<in>set results. showScore lower (stripNonAlnum (lower searchTitle)) r
                               < (if idTruthy malId \<or> idTruthy aniListId then 75 else 60)"
  from search_fuzzy [OF n refl, of lower searchTitle] a
  show "findAllAnimeShow_search lower searchTitle malId aniListId results = None"
    by blast
qed

lemma frieren_scores:
  "map (showScore asciiLower (stripNonAlnum (asciiLower (js ''Frierex'')))) frierenRows
     = [23, 2819776105976393 / 35184372088832]"
  by code_simp

lemma abd_scores:
  "map (showScore asciiLower (stripNonAlnum (asciiLower (js ''abc'')))) abdRows
     = [8444249301319679 / 140737488355328]"
  by code_simp

lemma frieren_ids:
  "map (idMatches (Some 7) None) frierenRows = [True, False]
   \<and> map (idMatches (Some 1) None) frierenRows = [False, False]
   \<and> map (idMatches None None) frierenRows = [False, False]
   \<and> map sc_id frierenRows = [js ''id1'', js ''id2'']"
  by (simp add: frierenRows_def idMatches_def idTruthy_def)

theorem findAllAnimeShow_search_spec_witness:
  "findAllAnimeShow_search asciiLower (js ''Frierex'') (Some 7) None frierenRows = Some (js ''id1'')
   \<and> findAllAnimeShow_search asciiLower (js ''Frierex'') (Some 1) None frierenRows = Some (js ''id2'')
   \<and> findAllAnimeShow_search asciiLower (js ''Frierex'') None None frierenRows = Some (js ''id2'')
   \<and> findAllAnimeShow_search asciiLower (js ''abc'') None None abdRows = None"
proof -
  obtain r1 r2 where rows: "frierenRows = [r1, r2]"
    by (simp add: frierenRows_def)
  obtain r3 where rows3: "abdRows = [r3]"
    by (simp add: abdRows_def)
  from frieren_ids [unfolded rows] have ids: "idMatches (Some 7) None r1" "\<not> idMatches (Some 7) None r2"
      "\<not> idMatches (Some 1) None r1" "\<not> idMatches (Some 1) None r2"
      "\<not> idMatches None None r1" "\<not> idMatches None None r2"
      "sc_id r1 = js ''id1''" "sc_id r2 = js ''id2''"
    by auto
  from frieren_scores [unfolded rows] have sc:
      "showScore asciiLower (stripNonAlnum (asciiLower (js ''Frierex''))) r1 = 23"
      "showScore asciiLower (stripNonAlnum (asciiLower (js ''Frierex''))) r2 = 2819776105976393 / 35184372088832"
    by auto
  from abd_scores [unfolded rows3] have ab:
      "showScore asciiLower (stripNonAlnum (asciiLower (js ''abc''))) r3 = 8444249301319679 / 140737488355328"
    by auto
  have t7: "idTruthy (Some 7)" "idTruthy (Some 1)" "\<not> idTruthy None"
    by (simp_all add: idTruthy_def)
  have n3: "\<not> idMatches None None r3"
    by (simp add: idMatches_def idTruthy_def)
  have a: "findAllAnimeShow_search asciiLower (js ''Frierex'') (Some 7) None frierenRows = Some (js ''id1'')"
    using findAllAnimeShow_search_spec [of frierenRows "Some 7" None asciiLower "js ''Frierex''"] ids
    unfolding rows by auto
  have b: "findAllAnimeShow_search asciiLower (js ''Frierex'') (Some 1) None frierenRows = Some (js ''id2'')"
    using findAllAnimeShow_search_spec [of frierenRows "Some 1" None asciiLower "js ''Frierex''"] ids sc t7
    unfolding rows by auto
  have c: "findAllAnimeShow_search asciiLower (js ''Frierex'') None None frierenRows = Some (js ''id2'')"
    using findAllAnimeShow_search_spec [of frierenRows None None asciiLower "js ''Frierex''"] ids sc t7
    unfolding rows by auto
  have d: "findAllAnimeShow_search asciiLower (js ''abc'') None None abdRows = None"
    using findAllAnimeShow_search_spec [of abdRows None None asciiLower "js ''abc''"] n3 ab t7
    unfolding rows3 by auto
  from a b c d show ?thesis by blast
qed

subsection \<open>Title normalizer\<close>




lemma reps_space_stop:
  "\<not> isSpace y \<Longrightarrow> reps False space 0 None p (y # r) = [(p, y # r)]"
  by (simp add: space_def)

lemma reps_space_none:
  "\<not> isSpace y \<Longrightarrow> reps False space (Suc 0) None p (y # r) = []"
  by (simp add: space_def)






lemma unsettled_examples:
  "\<not> settled asciiLower asciiNFD (js ''x   y'')"
  "\<not> settled asciiLower asciiNFD (js ''aa'')"
  by code_simp+




end
